theory Spec2Isabelle
  imports Complex_Main
begin

section \<open>Numbers, dates and failures\<close>

text \<open>
  The program computes with JavaScript numbers. The embedding takes them as real numbers:
  arithmetic is exact, and the values NaN and the infinities do not exist. The one
  function computed with the rounding of double precision is \<open>calculateFinalAffinity\<close>,
  whose result is compared with 1. A \<open>Date\<close>
  is its time value, the integer number of milliseconds since the epoch; invalid dates
  are left out.

  The source never divides by zero (each division is guarded), so the one way it reaches
  a value that is not a real number is an array read outside the array. Such a read
  yields \<open>undefined\<close>; reading a property of \<open>undefined\<close> throws a TypeError,
  and arithmetic on \<open>undefined\<close> gives NaN. Both are outcomes of the model:
  \<open>TypeError\<close> is the exception, \<open>Error msg\<close> is a thrown \<open>Error\<close> with its
  message, and \<open>UndefinedValue\<close> marks a run that went on with \<open>undefined\<close> (or NaN) in
  the place of a number, where the real-valued model ends.
\<close>

datatype error = TypeError | Error string | UndefinedValue

type_synonym date = int

subsection \<open>Dates\<close>

text \<open>
  The operations of \<open>Date\<close> that the program uses, after the ECMAScript specification.
  The time zone of the host is its function \<open>LocalTZA(t, isUTC)\<close>, the offset of local time
  in milliseconds at a time value, read as UTC or as local time; it is a parameter of
  everything that reads the calendar. A date whose time value leaves the range of
  \<open>TimeClip\<close> is an Invalid Date (\<open>None\<close>), and every comparison with it is false.
  \<open>activityDays\<close> is a whole number of days (the command line reads it with \<open>parseInt\<close>).
\<close>

type_synonym timezone = "int \<Rightarrow> bool \<Rightarrow> int"

definition msPerDay :: int where "msPerDay = 86400000"

definition maxTime :: int where "maxTime = 8640000000000000"

definition Day :: "int \<Rightarrow> int" where
  "Day t = t div msPerDay"

definition TimeWithinDay :: "int \<Rightarrow> int" where
  "TimeWithinDay t = t mod msPerDay"

definition LocalTime :: "timezone \<Rightarrow> int \<Rightarrow> int" where
  "LocalTime tz t = t + tz t True"

definition UTC :: "timezone \<Rightarrow> int \<Rightarrow> int" where
  "UTC tz t = t - tz t False"

definition MakeDate :: "int \<Rightarrow> int \<Rightarrow> int" where
  "MakeDate day time = day * msPerDay + time"

definition TimeClip :: "int \<Rightarrow> date option" where
  "TimeClip t = (if \<bar>t\<bar> > maxTime then None else Some t)"

text \<open>The day of the month of a time value in the proleptic Gregorian calendar, counted
  from the day number: the days since 0000-03-01 split into eras of 400 years, the year
  of the era, the day of the year from 1 March, and the month from March.\<close>

definition DateFromTime :: "int \<Rightarrow> int" where
  "DateFromTime t =
     (let doe = (Day t + 719468) mod 146097;
          yoe = (doe - doe div 1460 + doe div 36524 - doe div 146096) div 365;
          doy = doe - (365 * yoe + yoe div 4 - yoe div 100);
          mp = (5 * doy + 2) div 153
      in doy - (153 * mp + 2) div 5 + 1)"

definition getDate :: "timezone \<Rightarrow> date \<Rightarrow> int" where
  "getDate tz t = DateFromTime (LocalTime tz t)"

text \<open>
  \<open>setDate(dt)\<close> is \<open>TimeClip(UTC(MakeDate(MakeDay(YearFromTime(t), MonthFromTime(t), dt),
  TimeWithinDay(t))))\<close> at the local time \<open>t\<close> of the date. \<open>MakeDay(y, m, dt)\<close> is the day
  number of the first day of month \<open>m\<close> of year \<open>y\<close> plus \<open>dt - 1\<close>, and the first day of
  the month of \<open>t\<close> has the day number \<open>Day(t) - DateFromTime(t) + 1\<close>.
\<close>

definition setDate :: "timezone \<Rightarrow> date \<Rightarrow> int \<Rightarrow> date option" where
  "setDate tz t dt =
     (let tl = LocalTime tz t;
          newDate = MakeDate (Day tl - DateFromTime tl + 1 + dt - 1) (TimeWithinDay tl)
      in TimeClip (UTC tz newDate))"

text \<open>\<open>a >= b\<close> on a valid date and a date that may be invalid.\<close>

definition dateGe :: "date \<Rightarrow> date option \<Rightarrow> bool" where
  "dateGe a b = (case b of None \<Rightarrow> False | Some c \<Rightarrow> a \<ge> c)"

text \<open>The time zone with no offset.\<close>

definition utc :: timezone where
  "utc t isUTC = 0"

subsection \<open>math-utils.ts (src/unnamed/part_000)\<close>

definition log2 :: "real \<Rightarrow> real" where
  "log2 n = (if n \<le> 0 then 0 else log 2 n)"

definition clamp :: "real \<Rightarrow> real \<Rightarrow> real \<Rightarrow> real" where
  "clamp v lo hi = max lo (min hi v)"

definition normalizeToRange :: "real \<Rightarrow> real \<Rightarrow> real \<Rightarrow> real" where
  "normalizeToRange v lo hi =
     (if hi = lo then 0 else (clamp v lo hi - lo) / (hi - lo))"

section \<open>Seed weights (seed-weight_calculator.ts, src/unnamed/part_002)\<close>

record CategoryPurchaseInfo =
  cpi_categoryId :: string
  frequency :: real
  lastPurchaseDate :: date
  isLastOrder :: bool

record SeedWeight =
  sw_categoryId :: string
  recencyBoost :: real
  frequencyBoost :: real
  seedWeight :: real

definition RECENCY_BOOST_LAST_ORDER :: real where "RECENCY_BOOST_LAST_ORDER = 75 / 100"
definition RECENCY_BOOST_OLDER :: real where "RECENCY_BOOST_OLDER = 5 / 10"
definition FREQUENCY_BOOST_CAP :: real where "FREQUENCY_BOOST_CAP = 16 / 10"
definition FREQUENCY_BOOST_BASE :: real where "FREQUENCY_BOOST_BASE = 1"
definition FREQUENCY_BOOST_MULTIPLIER :: real where "FREQUENCY_BOOST_MULTIPLIER = 5 / 10"

definition calculateFrequencyBoost :: "real \<Rightarrow> real" where
  "calculateFrequencyBoost f =
     (if f \<le> 0 then FREQUENCY_BOOST_BASE
      else min (FREQUENCY_BOOST_BASE + FREQUENCY_BOOST_MULTIPLIER * log2 f) FREQUENCY_BOOST_CAP)"

definition calculateRecencyBoost :: "bool \<Rightarrow> real" where
  "calculateRecencyBoost b = (if b then RECENCY_BOOST_LAST_ORDER else RECENCY_BOOST_OLDER)"

definition calculateSeedWeight :: "CategoryPurchaseInfo \<Rightarrow> SeedWeight" where
  "calculateSeedWeight purchaseInfo =
     (let rb = calculateRecencyBoost (isLastOrder purchaseInfo);
          fb = calculateFrequencyBoost (frequency purchaseInfo)
      in \<lparr> sw_categoryId = cpi_categoryId purchaseInfo,
           recencyBoost = rb, frequencyBoost = fb, seedWeight = rb * fb \<rparr>)"

text \<open>
  The purchase history keeps its categories in a \<open>Map\<close>, whose iteration order is the
  order of first insertion: an association list with one entry for each key.
\<close>

record CustomerPurchaseHistory =
  cph_customerId :: string
  cph_categories :: "(string \<times> CategoryPurchaseInfo) list"
  lastOrderDate :: date
  cph_totalOrders :: nat

definition has :: "('k \<times> 'v) list \<Rightarrow> 'k \<Rightarrow> bool" where
  "has m k = (k \<in> fst ` set m)"

text \<open>
  \<open>new Date(referenceDate)\<close> copies the time value of the reference date;
  \<open>cutoffDate.setDate(cutoffDate.getDate() - activityDays)\<close> then changes the copy.
\<close>

definition isCustomerEligible ::
  "timezone \<Rightarrow> CustomerPurchaseHistory \<Rightarrow> string \<Rightarrow> int \<Rightarrow> date \<Rightarrow> bool" where
  "isCustomerEligible tz purchaseHistory goalCategory activityDays referenceDate =
     (if has (cph_categories purchaseHistory) goalCategory then False
      else (let cutoffDate = setDate tz referenceDate (getDate tz referenceDate - activityDays)
            in dateGe (lastOrderDate purchaseHistory) cutoffDate))"

section \<open>Double precision\<close>

text \<open>
  The rounding of IEEE 754 binary64, to nearest with ties to even. A positive real \<open>x\<close>
  has the binary exponent \<open>exponentOf x\<close>, the integer part of its logarithm to base 2 and
  at least -1022 (below \<open>2 ^ -1022\<close> lie the subnormal numbers, which share that exponent).
  The doubles around \<open>x\<close> are the multiples of \<open>ulp x\<close>, 52 binary digits below the
  exponent, and \<open>toDouble x\<close> is the nearest of them, the one with the even multiplier when
  two are equally near. Rounding is symmetric about 0. Overflow to an infinity is not
  part of the model; for a non-negative raw signal every number rounded here has an
  absolute value of at most 1.

  \<open>Math.exp\<close> is taken as the correctly rounded exponential (ECMAScript leaves its last
  digits to the implementation).
\<close>

definition roundTiesToEven :: "real \<Rightarrow> int" where
  "roundTiesToEven z =
     (let f = \<lfloor>z\<rfloor>; d = z - of_int f
      in if d < 1 / 2 then f else if 1 / 2 < d then f + 1 else if even f then f else f + 1)"

definition exponentOf :: "real \<Rightarrow> int" where
  "exponentOf x = max \<lfloor>log 2 x\<rfloor> (- 1022)"

definition ulp :: "real \<Rightarrow> real" where
  "ulp x = 2 powr (of_int (exponentOf x) - 52)"

definition roundPos :: "real \<Rightarrow> real" where
  "roundPos x = of_int (roundTiesToEven (x / ulp x)) * ulp x"

definition toDouble :: "real \<Rightarrow> real" where
  "toDouble x = (if x = 0 then 0 else if 0 < x then roundPos x else - roundPos (- x))"

definition mathExp :: "real \<Rightarrow> real" where
  "mathExp x = toDouble (exp x)"

section \<open>Affinity (src/customer_level/affinity-calculator.ts)\<close>

record WeightedSignal =
  ws_categoryId :: string
  signal :: real

text \<open>\<open>calculateRawSignal\<close> returns 0 for the empty list and \<open>Math.max\<close> of the signals
  otherwise. \<open>Math.max\<close> starts from minus infinity and takes the larger value at each
  argument: on a non-empty list of reals that is the first signal folded with \<open>max\<close> over
  the others.\<close>

fun calculateRawSignal :: "WeightedSignal list \<Rightarrow> real" where
  "calculateRawSignal [] = 0"
| "calculateRawSignal (w # ws) = fold max (map signal ws) (signal w)"

text \<open>
  \<open>calculateFinalAffinity\<close> is \<open>1 - Math.exp(-rawSignal)\<close>. Its result is compared with 1,
  where the rounding of the last operation decides, so this function is computed in
  double precision: the negation is exact, \<open>Math.exp\<close> returns a double, and the
  subtraction is rounded.
\<close>

definition calculateFinalAffinity :: "real \<Rightarrow> real" where
  "calculateFinalAffinity rawSignal = toDouble (1 - mathExp (- rawSignal))"

section \<open>Matrices\<close>

text \<open>
  A matrix is an array of rows. A read \<open>m[i][j]\<close> throws a TypeError when row \<open>i\<close> does
  not exist and yields \<open>undefined\<close> (\<open>None\<close>) when the row is too short. A write
  \<open>m[i][j] = v\<close> is only ever made into the matrix the function has allocated itself,
  at indices below its size, so it is a list update.
\<close>

definition rd :: "real list list \<Rightarrow> nat \<Rightarrow> nat \<Rightarrow> error + real option" where
  "rd m i j =
     (if i < length m
      then Inr (if j < length (m ! i) then Some (m ! i ! j) else None)
      else Inl TypeError)"

definition wr :: "real list list \<Rightarrow> nat \<Rightarrow> nat \<Rightarrow> real \<Rightarrow> real list list" where
  "wr m i j v = m[i := (m ! i)[j := v]]"

definition zeros :: "nat \<Rightarrow> real list list" where
  "zeros n = replicate n (replicate n 0)"

text \<open>A \<open>for\<close> loop whose body may throw: the first failure ends the loop.\<close>

fun forEach :: "'a list \<Rightarrow> ('a \<Rightarrow> 's \<Rightarrow> error + 's) \<Rightarrow> 's \<Rightarrow> error + 's" where
  "forEach [] body s = Inr s"
| "forEach (x # xs) body s =
     (case body x s of Inl e \<Rightarrow> Inl e | Inr s' \<Rightarrow> forEach xs body s')"

text \<open>\<open>xs.map((x, i) => f x i)\<close>\<close>

definition mapi :: "('a \<Rightarrow> nat \<Rightarrow> 'b) \<Rightarrow> 'a list \<Rightarrow> 'b list" where
  "mapi f xs = map (\<lambda>(i, x). f x i) (enumerate 0 xs)"

text \<open>\<open>[...new Set(xs)]\<close>: the distinct elements, each at its first occurrence.\<close>

definition uniq :: "'a list \<Rightarrow> 'a list" where
  "uniq xs = fold (\<lambda>x acc. if x \<in> set acc then acc else acc @ [x]) xs []"

record Category =
  cat_id :: string
  cat_name :: string
  popularity :: real

record OrderItem =
  categoryId :: string
  quantity :: real
  price :: real

record Order =
  order_id :: string
  customerId :: string
  items :: "OrderItem list"
  createdAt :: date
  total :: real

record Customer =
  cust_id :: string
  cust_name :: string
  email :: string
  cust_createdAt :: date

record CoOrderMatrix =
  category :: "string list"
  com_matrix :: "real list list"
  totalOrders :: real
  orderCounts :: "string \<rightharpoonup> real"

record LiftMatrix =
  lm_category :: "string list"
  lm_matrix :: "real list list"

record NormalizedMatrix =
  categories :: "string list"
  nm_matrix :: "real list list"
  p5 :: real
  p95 :: real

record CoAffinityMatrix =
  ca_categories :: "string list"
  ca_matrix :: "real list list"

section \<open>Co-occurrence counts (src/merchant_level/co-orders-calculator.ts)\<close>

text \<open>\<open>categories.forEach((id, index) => map.set(id, index))\<close>: a later index replaces an
  earlier one of the same identifier.\<close>

definition indexMap :: "string list \<Rightarrow> (string \<rightharpoonup> nat)" where
  "indexMap ids = fold (\<lambda>(index, c) m. m(c \<mapsto> index)) (enumerate 0 ids) Map.empty"

definition countCategory :: "string \<Rightarrow> (string \<rightharpoonup> real) \<Rightarrow> (string \<rightharpoonup> real)" where
  "countCategory cat oc = (case oc cat of None \<Rightarrow> oc | Some c \<Rightarrow> oc(cat \<mapsto> c + 1))"

definition countPair ::
  "(string \<rightharpoonup> nat) \<Rightarrow> string list \<Rightarrow> nat \<Rightarrow> nat \<Rightarrow> real list list \<Rightarrow> real list list" where
  "countPair categoryIndexMap orderCategories i j m =
     (case (categoryIndexMap (orderCategories ! i), categoryIndexMap (orderCategories ! j)) of
        (Some idx1, Some idx2) \<Rightarrow>
          (let m1 = wr m idx1 idx2 (m ! idx1 ! idx2 + 1)
           in wr m1 idx2 idx1 (m1 ! idx2 ! idx1 + 1))
      | _ \<Rightarrow> m)"

definition countOrder ::
  "(string \<rightharpoonup> nat) \<Rightarrow> Order \<Rightarrow> real list list \<times> (string \<rightharpoonup> real)
     \<Rightarrow> real list list \<times> (string \<rightharpoonup> real)" where
  "countOrder categoryIndexMap order = (\<lambda>(m, oc).
     (let orderCategories = uniq (map categoryId (items order));
          oc' = fold countCategory orderCategories oc;
          k = length orderCategories;
          m' = fold (\<lambda>i. fold (\<lambda>j. countPair categoryIndexMap orderCategories i j) [Suc i..<k])
                 [0..<k] m
      in (m', oc')))"

definition calculateCoOrderMatrix :: "Order list \<Rightarrow> Category list \<Rightarrow> CoOrderMatrix" where
  "calculateCoOrderMatrix orders cats =
     (let categoryIds = map cat_id cats;
          categoryIndexMap = indexMap categoryIds;
          n = length categoryIds;
          matrix0 = zeros n;
          orderCounts0 = fold (\<lambda>cat oc. oc(cat \<mapsto> 0)) categoryIds Map.empty;
          (matrix, counts) = fold (countOrder categoryIndexMap) orders (matrix0, orderCounts0)
      in \<lparr> category = categoryIds, com_matrix = matrix,
           totalOrders = real (length orders), orderCounts = counts \<rparr>)"

section \<open>Lift (src/merchant_level/lift-calculator.ts)\<close>

text \<open>\<open>orderCounts.get(c) || 0\<close>: an absent count and a zero count both give 0.\<close>

definition getOr0 :: "(string \<rightharpoonup> real) \<Rightarrow> string \<Rightarrow> real" where
  "getOr0 oc c = (case oc c of None \<Rightarrow> 0 | Some v \<Rightarrow> v)"

definition liftCell :: "CoOrderMatrix \<Rightarrow> nat \<Rightarrow> nat \<Rightarrow> real list list \<Rightarrow> error + real list list" where
  "liftCell coOrdersMatrix i j liftMatrix =
     (case rd (com_matrix coOrdersMatrix) i j of
        Inl e \<Rightarrow> Inl e
      | Inr coOrders \<Rightarrow>
          (let ordersA = getOr0 (orderCounts coOrdersMatrix) (category coOrdersMatrix ! i);
               ordersB = getOr0 (orderCounts coOrdersMatrix) (category coOrdersMatrix ! j)
           in if ordersA = 0 \<or> ordersB = 0
              then Inr (wr (wr liftMatrix i j 0) j i 0)
              else (case coOrders of
                      None \<Rightarrow> Inl UndefinedValue
                    | Some c \<Rightarrow>
                        (let lift = (c * totalOrders coOrdersMatrix) / (ordersA * ordersB)
                         in Inr (wr (wr liftMatrix i j lift) j i lift)))))"

definition calculateLiftMatrix :: "CoOrderMatrix \<Rightarrow> error + LiftMatrix" where
  "calculateLiftMatrix coOrdersMatrix =
     (let n = length (category coOrdersMatrix)
      in case forEach [0..<n] (\<lambda>i. forEach [Suc i..<n] (\<lambda>j. liftCell coOrdersMatrix i j))
                (zeros n) of
           Inl e \<Rightarrow> Inl e
         | Inr liftMatrix \<Rightarrow>
             Inr \<lparr> lm_category = category coOrdersMatrix, lm_matrix = liftMatrix \<rparr>)"

section \<open>Percentiles and normalization (percentile.ts in src/utils/csv-writer.ts, normaliser.ts)\<close>

text \<open>\<open>sorted[k]\<close> for an integer \<open>k\<close>: \<open>undefined\<close> outside the array.\<close>

definition elemAt :: "real list \<Rightarrow> int \<Rightarrow> real option" where
  "elemAt xs k = (if 0 \<le> k \<and> k < int (length xs) then Some (xs ! nat k) else None)"

definition calculatePercentile :: "real list \<Rightarrow> real \<Rightarrow> error + real" where
  "calculatePercentile values percentile =
     (if length values = 0 then Inr 0
      else (let sorted = sort values;
                index = (percentile / 100) * real (length sorted - 1);
                lower = \<lfloor>index\<rfloor>;
                upper = \<lceil>index\<rceil>
            in if lower = upper
               then (case elemAt sorted lower of None \<Rightarrow> Inl UndefinedValue | Some v \<Rightarrow> Inr v)
               else (case (elemAt sorted lower, elemAt sorted upper) of
                       (Some a, Some b) \<Rightarrow> Inr (a + (index - of_int lower) * (b - a))
                     | _ \<Rightarrow> Inl UndefinedValue)))"

definition getP5P95Bounds :: "real list \<Rightarrow> error + (real \<times> real)" where
  "getP5P95Bounds values =
     (case calculatePercentile values 5 of
        Inl e \<Rightarrow> Inl e
      | Inr b5 \<Rightarrow> (case calculatePercentile values 95 of
                     Inl e \<Rightarrow> Inl e
                   | Inr b95 \<Rightarrow> Inr (b5, b95)))"

definition normalizeP5P95 :: "real \<Rightarrow> real \<Rightarrow> real \<Rightarrow> real" where
  "normalizeP5P95 v b5 b95 =
     (if b95 = b5 then 0 else normalizeToRange (clamp v b5 b95) b5 b95)"

definition extractMatrixValues :: "real list list \<Rightarrow> real list" where
  "extractMatrixValues m =
     [m ! i ! j. i \<leftarrow> [0..<length m], j \<leftarrow> [Suc i..<length (m ! i)], m ! i ! j > 0]"

text \<open>\<open>p5 ?? calculatePercentile(values, 5)\<close>: the bound given, or the percentile of the
  sample when none is.\<close>

definition orPercentile :: "real option \<Rightarrow> real list \<Rightarrow> real \<Rightarrow> error + real" where
  "orPercentile b values p = (case b of Some v \<Rightarrow> Inr v | None \<Rightarrow> calculatePercentile values p)"

definition normalizeMatrixP5P95 ::
  "real list list \<Rightarrow> real option \<Rightarrow> real option \<Rightarrow> error + (real list list \<times> real \<times> real)" where
  "normalizeMatrixP5P95 m b5 b95 =
     (let values = extractMatrixValues m
      in case orPercentile b5 values 5 of
           Inl e \<Rightarrow> Inl e
         | Inr bp5 \<Rightarrow>
             (case orPercentile b95 values 95 of
                Inl e \<Rightarrow> Inl e
              | Inr bp95 \<Rightarrow>
                  Inr (mapi (\<lambda>row i. mapi (\<lambda>v j. if i = j then 0 else normalizeP5P95 v bp5 bp95) row) m,
                       bp5, bp95)))"

definition normalizeLiftMatrix :: "LiftMatrix \<Rightarrow> real option \<Rightarrow> real option \<Rightarrow> error + NormalizedMatrix" where
  "normalizeLiftMatrix liftMatrix b5 b95 =
     (case normalizeMatrixP5P95 (lm_matrix liftMatrix) b5 b95 of
        Inl e \<Rightarrow> Inl e
      | Inr (normalizedMatrix, actualP5, actualP95) \<Rightarrow>
          Inr \<lparr> categories = lm_category liftMatrix, nm_matrix = normalizedMatrix,
                p5 = actualP5, p95 = actualP95 \<rparr>)"

definition normalizeCoOrdersMatrix ::
  "CoOrderMatrix \<Rightarrow> real option \<Rightarrow> real option \<Rightarrow> error + NormalizedMatrix" where
  "normalizeCoOrdersMatrix coOrdersMatrix b5 b95 =
     (case normalizeMatrixP5P95 (com_matrix coOrdersMatrix) b5 b95 of
        Inl e \<Rightarrow> Inl e
      | Inr (normalizedMatrix, actualP5, actualP95) \<Rightarrow>
          Inr \<lparr> categories = category coOrdersMatrix, nm_matrix = normalizedMatrix,
                p5 = actualP5, p95 = actualP95 \<rparr>)"

definition getLiftBounds :: "LiftMatrix \<Rightarrow> error + (real \<times> real)" where
  "getLiftBounds liftMatrix = getP5P95Bounds (extractMatrixValues (lm_matrix liftMatrix))"

definition getCoOrdersBounds :: "CoOrderMatrix \<Rightarrow> error + (real \<times> real)" where
  "getCoOrdersBounds coOrdersMatrix = getP5P95Bounds (extractMatrixValues (com_matrix coOrdersMatrix))"

section \<open>CoAffinity (coaffinity-matrix.ts in src/merchant_level/co-orders-calculator.ts)\<close>

definition LIFT_WEIGHT :: real where "LIFT_WEIGHT = 7 / 10"
definition CO_ORDERS_WEIGHT :: real where "CO_ORDERS_WEIGHT = 3 / 10"

definition coAffinityCell ::
  "NormalizedMatrix \<Rightarrow> NormalizedMatrix \<Rightarrow> nat \<Rightarrow> nat \<Rightarrow> real list list \<Rightarrow> error + real list list" where
  "coAffinityCell normalizedLift normalizedCoOrders i j m =
     (if i = j then Inr (wr m i j 0)
      else (case rd (nm_matrix normalizedLift) i j of
              Inl e \<Rightarrow> Inl e
            | Inr a \<Rightarrow>
                (case rd (nm_matrix normalizedCoOrders) i j of
                   Inl e \<Rightarrow> Inl e
                 | Inr b \<Rightarrow>
                     (case (a, b) of
                        (Some x, Some y) \<Rightarrow> Inr (wr m i j (LIFT_WEIGHT * x + CO_ORDERS_WEIGHT * y))
                      | _ \<Rightarrow> Inl UndefinedValue))))"

definition calculateCoAffinityMatrix ::
  "NormalizedMatrix \<Rightarrow> NormalizedMatrix \<Rightarrow> error + CoAffinityMatrix" where
  "calculateCoAffinityMatrix normalizedLift normalizedCoOrders =
     (let n = length (categories normalizedLift)
      in case forEach [0..<n]
                (\<lambda>i. forEach [0..<n] (\<lambda>j. coAffinityCell normalizedLift normalizedCoOrders i j))
                (zeros n) of
           Inl e \<Rightarrow> Inl e
         | Inr matrix \<Rightarrow>
             Inr \<lparr> ca_categories = categories normalizedLift, ca_matrix = matrix \<rparr>)"

section \<open>The matrix pipeline (buildCoAffinityFromOrders)\<close>

record MatrixStats =
  liftP5 :: real
  liftP95 :: real
  coOrdersP5 :: real
  coOrdersP95 :: real
  ms_totalOrders :: real
  categoryOrderCounts :: "string \<rightharpoonup> real"

record BuildResult =
  coOrdersMatrix :: CoOrderMatrix
  liftMatrix :: LiftMatrix
  normalizedLift :: NormalizedMatrix
  normalizedCoOrders :: NormalizedMatrix
  coAffinityMatrix :: CoAffinityMatrix
  stats :: MatrixStats

text \<open>The summaries the pipeline prints between its steps are left out.\<close>

definition buildCoAffinityFromOrders :: "Order list \<Rightarrow> Category list \<Rightarrow> error + BuildResult" where
  "buildCoAffinityFromOrders orders cats =
     (let com = calculateCoOrderMatrix orders cats
      in case calculateLiftMatrix com of
           Inl e \<Rightarrow> Inl e
         | Inr lm \<Rightarrow>
      (case getLiftBounds lm of
           Inl e \<Rightarrow> Inl e
         | Inr (l5, l95) \<Rightarrow>
      (case getCoOrdersBounds com of
           Inl e \<Rightarrow> Inl e
         | Inr (c5, c95) \<Rightarrow>
      (case normalizeLiftMatrix lm (Some l5) (Some l95) of
           Inl e \<Rightarrow> Inl e
         | Inr nl \<Rightarrow>
      (case normalizeCoOrdersMatrix com (Some c5) (Some c95) of
           Inl e \<Rightarrow> Inl e
         | Inr nc \<Rightarrow>
      (case calculateCoAffinityMatrix nl nc of
           Inl e \<Rightarrow> Inl e
         | Inr ca \<Rightarrow>
             Inr \<lparr> coOrdersMatrix = com, liftMatrix = lm, normalizedLift = nl,
                   normalizedCoOrders = nc, coAffinityMatrix = ca,
                   stats = \<lparr> liftP5 = l5, liftP95 = l95, coOrdersP5 = c5, coOrdersP95 = c95,
                             ms_totalOrders = totalOrders com,
                             categoryOrderCounts = orderCounts com \<rparr> \<rparr>))))))"

section \<open>Purchase histories (seed-weight_calculator.ts, src/unnamed/part_002)\<close>

text \<open>\<open>Map.get\<close> is \<open>map_of\<close>; \<open>Map.set\<close> replaces the value of a key in place and appends
  a new key at the end.\<close>

fun mapSet :: "'k \<Rightarrow> 'v \<Rightarrow> ('k \<times> 'v) list \<Rightarrow> ('k \<times> 'v) list" where
  "mapSet k v [] = [(k, v)]"
| "mapSet k v (p # ps) = (if fst p = k then (k, v) # ps else p # mapSet k v ps)"

definition recordPurchase ::
  "string list \<Rightarrow> Order \<Rightarrow> string \<Rightarrow> (string \<times> CategoryPurchaseInfo) list
     \<Rightarrow> (string \<times> CategoryPurchaseInfo) list" where
  "recordPurchase lastOrderCategories order catId cats =
     (case map_of cats catId of
        Some existing \<Rightarrow>
          mapSet catId
            (existing\<lparr> frequency := frequency existing + 1,
                       lastPurchaseDate :=
                         (if createdAt order > lastPurchaseDate existing then createdAt order
                          else lastPurchaseDate existing) \<rparr>) cats
      | None \<Rightarrow>
          mapSet catId
            \<lparr> cpi_categoryId = catId, frequency = 1, lastPurchaseDate = createdAt order,
              isLastOrder = (catId \<in> set lastOrderCategories) \<rparr> cats)"

text \<open>\<open>Array.prototype.sort\<close> is stable, and so is \<open>sort_key\<close>; the comparator
  \<open>b.createdAt.getTime() - a.createdAt.getTime()\<close> orders by descending time.\<close>

definition buildCustomerPurchaseHistory :: "string \<Rightarrow> Order list \<Rightarrow> CustomerPurchaseHistory option" where
  "buildCustomerPurchaseHistory cid orders =
     (let customerOrders = sort_key (\<lambda>x. - createdAt x) (filter (\<lambda>x. customerId x = cid) orders)
      in case customerOrders of
           [] \<Rightarrow> None
         | lastOrder # _ \<Rightarrow>
             (let lastOrderCategories = map categoryId (items lastOrder);
                  cats = fold (\<lambda>order. fold (recordPurchase lastOrderCategories order)
                                         (uniq (map categoryId (items order))))
                           customerOrders []
              in Some \<lparr> cph_customerId = cid, cph_categories = cats,
                        lastOrderDate = createdAt lastOrder,
                        cph_totalOrders = length customerOrders \<rparr>))"

definition calculateAllSeedWeights :: "CustomerPurchaseHistory \<Rightarrow> SeedWeight list" where
  "calculateAllSeedWeights purchaseHistory =
     map (\<lambda>(k, purchaseInfo). calculateSeedWeight purchaseInfo) (cph_categories purchaseHistory)"

section \<open>Customer affinity (data-loader.ts in src/utils/csv-writer.ts, affinity-calculator.ts)\<close>

definition buildCategoryIndexMap :: "string list \<Rightarrow> (string \<rightharpoonup> nat)" where
  "buildCategoryIndexMap cats = indexMap cats"

definition getCoAffinity ::
  "CoAffinityMatrix \<Rightarrow> (string \<rightharpoonup> nat) \<Rightarrow> string \<Rightarrow> string \<Rightarrow> error + real" where
  "getCoAffinity matrix categoryIndexMap cat1 cat2 =
     (case (categoryIndexMap cat1, categoryIndexMap cat2) of
        (Some idx1, Some idx2) \<Rightarrow>
          (case rd (ca_matrix matrix) idx1 idx2 of
             Inl e \<Rightarrow> Inl e
           | Inr None \<Rightarrow> Inl UndefinedValue
           | Inr (Some v) \<Rightarrow> Inr v)
      | _ \<Rightarrow> Inr 0)"

text \<open>A loop that pushes one result for each element, and may throw.\<close>

fun mapE :: "('a \<Rightarrow> error + 'b) \<Rightarrow> 'a list \<Rightarrow> error + 'b list" where
  "mapE f [] = Inr []"
| "mapE f (x # xs) =
     (case f x of
        Inl e \<Rightarrow> Inl e
      | Inr y \<Rightarrow> (case mapE f xs of Inl e \<Rightarrow> Inl e | Inr ys \<Rightarrow> Inr (y # ys)))"

definition calculateWeightedSignals ::
  "SeedWeight list \<Rightarrow> string \<Rightarrow> CoAffinityMatrix \<Rightarrow> (string \<rightharpoonup> nat) \<Rightarrow> error + WeightedSignal list" where
  "calculateWeightedSignals seedWeights goalCategory matrix categoryIndexMap =
     mapE (\<lambda>sw. case getCoAffinity matrix categoryIndexMap (sw_categoryId sw) goalCategory of
                  Inl e \<Rightarrow> Inl e
                | Inr coAffinity \<Rightarrow>
                    Inr \<lparr> ws_categoryId = sw_categoryId sw, signal = coAffinity * seedWeight sw \<rparr>)
       seedWeights"

record CustomerAffinityResult =
  car_customerId :: string
  car_goalCategory :: string
  car_seedWeights :: "SeedWeight list"
  car_weightedSignals :: "WeightedSignal list"
  maxWeightedSignal :: real
  affinity :: real

definition calculateCustomerAffinity ::
  "CustomerPurchaseHistory \<Rightarrow> string \<Rightarrow> CoAffinityMatrix \<Rightarrow> (string \<rightharpoonup> nat)
     \<Rightarrow> error + CustomerAffinityResult" where
  "calculateCustomerAffinity purchaseHistory goalCategory matrix categoryIndexMap =
     (let seedWeights = calculateAllSeedWeights purchaseHistory
      in case calculateWeightedSignals seedWeights goalCategory matrix categoryIndexMap of
           Inl e \<Rightarrow> Inl e
         | Inr weightedSignals \<Rightarrow>
             (let raw = calculateRawSignal weightedSignals
              in Inr \<lparr> car_customerId = cph_customerId purchaseHistory,
                       car_goalCategory = goalCategory,
                       car_seedWeights = seedWeights,
                       car_weightedSignals = weightedSignals,
                       maxWeightedSignal = raw,
                       affinity = calculateFinalAffinity raw \<rparr>))"

definition createCategoryIndexMap :: "CoAffinityMatrix \<Rightarrow> (string \<rightharpoonup> nat)" where
  "createCategoryIndexMap matrix = buildCategoryIndexMap (ca_categories matrix)"

section \<open>The batch run (src/customer_level/batch-processor.ts)\<close>

record SkipRecord =
  sk_customerId :: string
  reason :: string

text \<open>\<open>xs.join(sep)\<close>\<close>

fun joinWith :: "string \<Rightarrow> string list \<Rightarrow> string" where
  "joinWith sep [] = []"
| "joinWith sep [x] = x"
| "joinWith sep (x # y # ys) = x @ sep @ joinWith sep (y # ys)"

definition goalNotFound :: "string \<Rightarrow> string list \<Rightarrow> string" where
  "goalNotFound goalCategory cats =
     ''Goal category '' @ [CHR 0x22] @ goalCategory @ [CHR 0x22] @ '' not found. ''
       @ ''Available categories: '' @ joinWith '', '' cats"

text \<open>The body of the loop over the customers. The progress lines it prints and the two
  counters that only feed them are left out.\<close>

definition processCustomer ::
  "timezone \<Rightarrow> Order list \<Rightarrow> CoAffinityMatrix \<Rightarrow> (string \<rightharpoonup> nat) \<Rightarrow> string \<Rightarrow> int \<Rightarrow> date \<Rightarrow> Customer
     \<Rightarrow> CustomerAffinityResult list \<times> SkipRecord list
     \<Rightarrow> error + (CustomerAffinityResult list \<times> SkipRecord list)" where
  "processCustomer tz orders matrix categoryIndexMap goalCategory activeDays referenceDate customer =
     (\<lambda>(results, skipped).
        case buildCustomerPurchaseHistory (cust_id customer) orders of
          None \<Rightarrow>
            Inr (results, skipped @ [\<lparr> sk_customerId = cust_id customer, reason = ''No orders'' \<rparr>])
        | Some purchaseHistory \<Rightarrow>
            if \<not> isCustomerEligible tz purchaseHistory goalCategory activeDays referenceDate
            then (let hasGoalCategory = has (cph_categories purchaseHistory) goalCategory;
                      r = (if hasGoalCategory then ''Already purchased goal category''
                           else ''Not active in window'')
                  in Inr (results, skipped @ [\<lparr> sk_customerId = cust_id customer, reason = r \<rparr>]))
            else (case calculateCustomerAffinity purchaseHistory goalCategory matrix
                         categoryIndexMap of
                    Inl e \<Rightarrow> Inl e
                  | Inr result \<Rightarrow> Inr (results @ [result], skipped)))"

definition processAllCustomers ::
  "timezone \<Rightarrow> Customer list \<Rightarrow> Order list \<Rightarrow> CoAffinityMatrix \<Rightarrow> string \<Rightarrow> int \<Rightarrow> date
     \<Rightarrow> error + (CustomerAffinityResult list \<times> SkipRecord list)" where
  "processAllCustomers tz customers orders matrix goalCategory activeDays referenceDate =
     (let categoryIndexMap = createCategoryIndexMap matrix
      in if goalCategory \<notin> set (ca_categories matrix)
         then Inl (Error (goalNotFound goalCategory (ca_categories matrix)))
         else forEach customers
                (processCustomer tz orders matrix categoryIndexMap goalCategory activeDays
                   referenceDate)
                ([], []))"

section \<open>Notions of the specification\<close>

text \<open>A matrix over \<open>n\<close> categories has \<open>n\<close> rows of \<open>n\<close> cells; it is symmetric with a zero
  diagonal when \<open>M[i][j] = M[j][i]\<close> and \<open>M[i][i] = 0\<close> at all indices below \<open>n\<close>.\<close>

definition square :: "nat \<Rightarrow> real list list \<Rightarrow> bool" where
  "square n m = (length m = n \<and> list_all (\<lambda>row. length row = n) m)"

definition symmetric0 :: "nat \<Rightarrow> real list list \<Rightarrow> bool" where
  "symmetric0 n m =
     (square n m \<and> list_all (\<lambda>i. m ! i ! i = 0 \<and> list_all (\<lambda>j. m ! i ! j = m ! j ! i) [0..<n]) [0..<n])"

text \<open>The blend of two normalized cells, and the lift of a pair of categories, as the
  specification writes them.\<close>

definition coAffinityValue :: "NormalizedMatrix \<Rightarrow> NormalizedMatrix \<Rightarrow> nat \<Rightarrow> nat \<Rightarrow> real" where
  "coAffinityValue nl nc i j =
     (if i = j then 0 else 7 / 10 * (nm_matrix nl ! i ! j) + 3 / 10 * (nm_matrix nc ! i ! j))"

definition liftValue :: "CoOrderMatrix \<Rightarrow> nat \<Rightarrow> nat \<Rightarrow> real" where
  "liftValue com i j =
     (if getOr0 (orderCounts com) (category com ! i) = 0
         \<or> getOr0 (orderCounts com) (category com ! j) = 0
      then 0
      else (com_matrix com ! i ! j * totalOrders com)
             / (getOr0 (orderCounts com) (category com ! i)
                * getOr0 (orderCounts com) (category com ! j)))"


text \<open>The value the percentile reads off a sorted sample at the fractional rank \<open>t\<close>.\<close>

definition interpolate :: "real list \<Rightarrow> real \<Rightarrow> real" where
  "interpolate xs t =
     (if \<lfloor>t\<rfloor> = \<lceil>t\<rceil> then xs ! nat \<lfloor>t\<rfloor>
      else xs ! nat \<lfloor>t\<rfloor> + (t - of_int \<lfloor>t\<rfloor>) * (xs ! nat \<lceil>t\<rceil> - xs ! nat \<lfloor>t\<rfloor>))"

text \<open>
  The reference date moved back by \<open>d\<close> calendar days in the time zone of the host: the
  same local time of day, \<open>d\<close> days earlier, read back as a time value. A last order is
  within the activity window when that cutoff is a valid date and the order is at or
  after it.
\<close>

definition daysBefore :: "timezone \<Rightarrow> date \<Rightarrow> int \<Rightarrow> int" where
  "daysBefore tz r d = UTC tz (LocalTime tz r - d * msPerDay)"

definition activeInWindow :: "timezone \<Rightarrow> date \<Rightarrow> int \<Rightarrow> date \<Rightarrow> bool" where
  "activeInWindow tz lastOrder d r =
     (\<bar>daysBefore tz r d\<bar> \<le> maxTime \<and> daysBefore tz r d \<le> lastOrder)"

text \<open>
  The skip reason of a customer as the specification words it: no orders; else already
  purchased the goal category; else not active in the window; else none (the customer is
  scored). The skip records of a customer list are the reasons of its customers, in order.
\<close>

definition skipReason ::
  "timezone \<Rightarrow> Order list \<Rightarrow> string \<Rightarrow> int \<Rightarrow> date \<Rightarrow> string \<Rightarrow> string option" where
  "skipReason tz orders goalCategory activeDays referenceDate cid =
     (case buildCustomerPurchaseHistory cid orders of
        None \<Rightarrow> Some ''No orders''
      | Some h \<Rightarrow>
          if has (cph_categories h) goalCategory then Some ''Already purchased goal category''
          else if \<not> activeInWindow tz (lastOrderDate h) activeDays referenceDate
               then Some ''Not active in window''
               else None)"

definition skipRecords ::
  "timezone \<Rightarrow> Order list \<Rightarrow> string \<Rightarrow> int \<Rightarrow> date \<Rightarrow> Customer list \<Rightarrow> SkipRecord list" where
  "skipRecords tz orders goalCategory activeDays referenceDate customers =
     List.map_filter
       (\<lambda>c. map_option (\<lambda>r. \<lparr> sk_customerId = cust_id c, reason = r \<rparr>)
              (skipReason tz orders goalCategory activeDays referenceDate (cust_id c)))
       customers"

section \<open>Example data\<close>

text \<open>The time zone of New York around March 2024: five hours behind UTC until
  10 March 2024, 07:00 UTC (03:00 local time), four hours behind from then on.\<close>

definition newYork2024 :: timezone where
  "newYork2024 t isUTC =
     (if isUTC then (if t < 1710054000000 then - 18000000 else - 14400000)
      else (if t < 1710039600000 then - 18000000 else - 14400000))"

text \<open>A small batch for the closed instances below: three orders, four customers, and a
  CoAffinity matrix over two categories. With the goal category B, a window of 90 days and
  the reference date at day 100, customer c1 bought only A at day 0, c2 bought B at day 0,
  c3 bought A at day 100 and c4 has no order.\<close>

definition exampleOrders :: "Order list" where
  "exampleOrders =
     [\<lparr> order_id = ''o1'', customerId = ''c1'',
         items = [\<lparr> categoryId = ''A'', quantity = 1, price = 5 \<rparr>], createdAt = 0, total = 5 \<rparr>,
      \<lparr> order_id = ''o2'', customerId = ''c2'',
         items = [\<lparr> categoryId = ''B'', quantity = 1, price = 3 \<rparr>,
                  \<lparr> categoryId = ''B'', quantity = 2, price = 3 \<rparr>], createdAt = 0, total = 9 \<rparr>,
      \<lparr> order_id = ''o3'', customerId = ''c3'',
         items = [\<lparr> categoryId = ''A'', quantity = 1, price = 5 \<rparr>],
         createdAt = 100 * msPerDay, total = 5 \<rparr>]"

definition exampleCustomers :: "Customer list" where
  "exampleCustomers =
     [\<lparr> cust_id = ''c1'', cust_name = ''Ann'', email = ''a@x'', cust_createdAt = 0 \<rparr>,
      \<lparr> cust_id = ''c2'', cust_name = ''Bob'', email = ''b@x'', cust_createdAt = 0 \<rparr>,
      \<lparr> cust_id = ''c3'', cust_name = ''Cy'', email = ''c@x'', cust_createdAt = 0 \<rparr>,
      \<lparr> cust_id = ''c4'', cust_name = ''Di'', email = ''d@x'', cust_createdAt = 0 \<rparr>]"

definition exampleMatrix :: CoAffinityMatrix where
  "exampleMatrix = \<lparr> ca_categories = [''A'', ''B''], ca_matrix = [[0, 1 / 2], [1 / 2, 0]] \<rparr>"

section \<open>Properties\<close>

lemma fold_max_Max: "fold max xs (x::real) = Max (insert x (set xs))"
proof (induction xs arbitrary: x)
  case Nil
  show ?case by simp
next
  case (Cons y ys)
  have "fold max (y # ys) x = Max (insert (max y x) (set ys))"
    using Cons.IH [of "max y x"] by simp
  also have "\<dots> = Max (insert x (set (y # ys)))"
  proof (cases "set ys = {}")
    case True
    then show ?thesis by (simp add: max.commute)
  next
    case False
    then show ?thesis by (simp add: max.assoc max.left_commute max.commute)
  qed
  finally show ?case .
qed

subsection \<open>Seed weights\<close>




subsection \<open>Raw signal and final affinity\<close>

lemma roundTiesToEven_bounds:
  "\<lfloor>z\<rfloor> \<le> roundTiesToEven z" "roundTiesToEven z \<le> \<lfloor>z\<rfloor> + 1"
  by (simp_all add: roundTiesToEven_def Let_def)

lemma roundTiesToEven_of_int: "roundTiesToEven (of_int n) = n"
  by (simp add: roundTiesToEven_def)

lemma roundTiesToEven_mono:
  assumes "z \<le> w"
  shows "roundTiesToEven z \<le> roundTiesToEven w"
proof (cases "\<lfloor>z\<rfloor> < \<lfloor>w\<rfloor>")
  case True
  have "roundTiesToEven z \<le> \<lfloor>z\<rfloor> + 1" by (rule roundTiesToEven_bounds)
  also have "\<dots> \<le> \<lfloor>w\<rfloor>" using True by simp
  also have "\<dots> \<le> roundTiesToEven w" by (rule roundTiesToEven_bounds)
  finally show ?thesis .
next
  case False
  then have eq: "\<lfloor>z\<rfloor> = \<lfloor>w\<rfloor>" using floor_mono [OF assms] by simp
  have "z - of_int \<lfloor>w\<rfloor> \<le> w - of_int \<lfloor>w\<rfloor>" using assms by simp
  then show ?thesis by (simp add: roundTiesToEven_def Let_def eq)
qed

lemma roundTiesToEven_error: "\<bar>of_int (roundTiesToEven z) - z\<bar> \<le> 1 / 2"
proof -
  have "0 \<le> z - of_int \<lfloor>z\<rfloor>" "z - of_int \<lfloor>z\<rfloor> < 1" by linarith+
  then show ?thesis by (auto simp add: roundTiesToEven_def Let_def)
qed

lemma ulp_pos: "0 < ulp x"
  by (simp add: ulp_def)

lemma exponentOf_upper:
  assumes "0 < x"
  shows "x < 2 powr (of_int (exponentOf x) + 1)"
proof -
  have "log 2 x < of_int \<lfloor>log 2 x\<rfloor> + 1" by linarith
  also have "\<dots> \<le> of_int (exponentOf x) + 1" by (simp add: exponentOf_def)
  finally have "log 2 x < of_int (exponentOf x) + 1" .
  then show ?thesis using assms by (simp add: log_less_iff)
qed

lemma exponentOf_lower:
  assumes "0 < x" "- 1022 < exponentOf x"
  shows "2 powr of_int (exponentOf x) \<le> x"
proof -
  have "exponentOf x = \<lfloor>log 2 x\<rfloor>" using assms(2) by (simp add: exponentOf_def max_def split: if_splits)
  then have "of_int (exponentOf x) \<le> log 2 x" by simp
  then show ?thesis using assms(1) by (simp add: le_log_iff)
qed

lemma exponentOf_mono:
  assumes "0 < x" "x \<le> y"
  shows "exponentOf x \<le> exponentOf y"
proof -
  have "log 2 x \<le> log 2 y" using assms by simp
  then have "\<lfloor>log 2 x\<rfloor> \<le> \<lfloor>log 2 y\<rfloor>" by (rule floor_mono)
  then show ?thesis by (simp add: exponentOf_def)
qed

lemma pow2_times_ulp:
  "of_int (2 ^ 52) * ulp x = 2 powr of_int (exponentOf x)"
  "of_int (2 ^ 53) * ulp x = 2 powr (of_int (exponentOf x) + 1)"
proof -
  have e52: "(of_int (2 ^ 52) :: real) = 2 powr 52" and e53: "(of_int (2 ^ 53) :: real) = 2 powr 53"
    by simp_all
  have "of_int (2 ^ 52) * ulp x = 2 powr 52 * 2 powr (of_int (exponentOf x) - 52)"
    by (simp only: e52 ulp_def)
  also have "\<dots> = 2 powr (52 + (of_int (exponentOf x) - 52))" by (simp only: powr_add)
  also have "\<dots> = 2 powr of_int (exponentOf x)" by simp
  finally show "of_int (2 ^ 52) * ulp x = 2 powr of_int (exponentOf x)" .
  have "of_int (2 ^ 53) * ulp x = 2 powr 53 * 2 powr (of_int (exponentOf x) - 52)"
    by (simp only: e53 ulp_def)
  also have "\<dots> = 2 powr (53 + (of_int (exponentOf x) - 52))" by (simp only: powr_add)
  also have "\<dots> = 2 powr (of_int (exponentOf x) + 1)" by (simp add: add.commute)
  finally show "of_int (2 ^ 53) * ulp x = 2 powr (of_int (exponentOf x) + 1)" .
qed

lemma roundPos_nonneg:
  assumes "0 < x"
  shows "0 \<le> roundPos x"
proof -
  have "0 \<le> x / ulp x" using assms ulp_pos [of x] by simp
  then have "0 \<le> \<lfloor>x / ulp x\<rfloor>" by simp
  then have "0 \<le> roundTiesToEven (x / ulp x)"
    using roundTiesToEven_bounds(1) [of "x / ulp x"] by linarith
  then show ?thesis using ulp_pos [of x] by (simp add: roundPos_def)
qed

lemma roundPos_upper:
  assumes "0 < x"
  shows "roundPos x \<le> 2 powr (of_int (exponentOf x) + 1)"
proof -
  have "x / ulp x \<le> 2 powr (of_int (exponentOf x) + 1) / ulp x"
    using exponentOf_upper [OF assms] ulp_pos [of x] by (simp add: divide_right_mono)
  also have "\<dots> = 2 powr 53"
    by (simp add: ulp_def powr_diff [symmetric])
  also have "\<dots> = of_int (2 ^ 53)" by simp
  finally have "roundTiesToEven (x / ulp x) \<le> roundTiesToEven (of_int (2 ^ 53))"
    by (rule roundTiesToEven_mono)
  then have "roundTiesToEven (x / ulp x) \<le> 2 ^ 53" by (simp only: roundTiesToEven_of_int)
  then have "(of_int (roundTiesToEven (x / ulp x)) :: real) \<le> of_int (2 ^ 53)"
    by (simp only: of_int_le_iff)
  then have "roundPos x \<le> of_int (2 ^ 53) * ulp x"
    unfolding roundPos_def using ulp_pos [of x] by (intro mult_right_mono) simp_all
  also have "\<dots> = 2 powr (of_int (exponentOf x) + 1)" by (rule pow2_times_ulp(2))
  finally show ?thesis .
qed

lemma roundPos_lower:
  assumes "0 < x" "- 1022 < exponentOf x"
  shows "2 powr of_int (exponentOf x) \<le> roundPos x"
proof -
  have "2 powr 52 = 2 powr of_int (exponentOf x) / ulp x"
    by (simp add: ulp_def powr_diff [symmetric])
  also have "\<dots> \<le> x / ulp x"
    using exponentOf_lower [OF assms] ulp_pos [of x] by (simp add: divide_right_mono)
  finally have "(of_int (2 ^ 52) :: real) \<le> x / ulp x" by simp
  then have "roundTiesToEven (of_int (2 ^ 52)) \<le> roundTiesToEven (x / ulp x)"
    by (rule roundTiesToEven_mono)
  then have "2 ^ 52 \<le> roundTiesToEven (x / ulp x)" by (simp only: roundTiesToEven_of_int)
  then have "(of_int (2 ^ 52) :: real) \<le> of_int (roundTiesToEven (x / ulp x))"
    by (simp only: of_int_le_iff)
  then have "of_int (2 ^ 52) * ulp x \<le> roundPos x"
    unfolding roundPos_def using ulp_pos [of x] by (intro mult_right_mono) simp_all
  then show ?thesis by (simp only: pow2_times_ulp(1))
qed

lemma roundPos_mono:
  assumes "0 < x" "x \<le> y"
  shows "roundPos x \<le> roundPos y"
proof (cases "exponentOf x = exponentOf y")
  case True
  then have u: "ulp y = ulp x" by (simp add: ulp_def)
  have "x / ulp x \<le> y / ulp x" using assms ulp_pos [of x] by (simp add: divide_right_mono)
  then have "roundTiesToEven (x / ulp x) \<le> roundTiesToEven (y / ulp x)"
    by (rule roundTiesToEven_mono)
  then have "(of_int (roundTiesToEven (x / ulp x)) :: real) \<le> of_int (roundTiesToEven (y / ulp x))"
    by (simp only: of_int_le_iff)
  then show ?thesis
    unfolding roundPos_def u using ulp_pos [of x] by (intro mult_right_mono) simp_all
next
  case False
  then have lt: "exponentOf x < exponentOf y" using exponentOf_mono [OF assms] by simp
  have y: "0 < y" using assms by simp
  have "- 1022 \<le> exponentOf x" by (simp add: exponentOf_def)
  then have n: "- 1022 < exponentOf y" using lt by simp
  have "roundPos x \<le> 2 powr (of_int (exponentOf x) + 1)" by (rule roundPos_upper [OF assms(1)])
  also have "\<dots> \<le> 2 powr of_int (exponentOf y)"
  proof -
    have "(of_int (exponentOf x) + 1 :: real) \<le> of_int (exponentOf y)" using lt by linarith
    then show ?thesis by simp
  qed
  also have "\<dots> \<le> roundPos y" by (rule roundPos_lower [OF y n])
  finally show ?thesis .
qed

lemma toDouble_mono:
  assumes "x \<le> y"
  shows "toDouble x \<le> toDouble y"
proof -
  consider "0 < x" | "x = 0" | "x < 0" "y < 0" | "x < 0" "0 \<le> y" by linarith
  then show ?thesis
  proof cases
    case 1
    then show ?thesis using assms roundPos_mono [of x y] by (simp add: toDouble_def)
  next
    case 2
    then show ?thesis using assms roundPos_nonneg [of y] by (auto simp add: toDouble_def)
  next
    case 3
    then have "0 < - y" "- y \<le> - x" using assms by simp_all
    then have "roundPos (- y) \<le> roundPos (- x)" by (rule roundPos_mono)
    then show ?thesis using 3 by (simp add: toDouble_def)
  next
    case 4
    have "0 \<le> roundPos (- x)" using 4(1) by (intro roundPos_nonneg) simp
    moreover have "0 \<le> toDouble y" using 4(2) roundPos_nonneg [of y] by (auto simp add: toDouble_def)
    ultimately show ?thesis using 4(1) by (simp add: toDouble_def)
  qed
qed

lemma toDouble_zero: "toDouble 0 = 0"
  by (simp add: toDouble_def)

lemma roundPos_exact:
  assumes "x / ulp x = of_int n"
  shows "roundPos x = x"
proof -
  have "roundPos x = of_int n * ulp x"
    by (simp only: roundPos_def assms roundTiesToEven_of_int)
  also have "\<dots> = x / ulp x * ulp x" by (simp only: assms)
  also have "\<dots> = x" using ulp_pos [of x] by simp
  finally show ?thesis .
qed

lemma exponentOf_eq:
  assumes "0 < x" "2 powr of_int k \<le> x" "x < 2 powr of_int (k + 1)" "- 1022 \<le> k"
  shows "exponentOf x = k"
proof -
  have "\<lfloor>log 2 x\<rfloor> = k" using assms(1,2,3) by (simp add: floor_log_eq_powr_iff)
  then show ?thesis using assms(4) by (simp add: exponentOf_def)
qed

lemma toDouble_one: "toDouble 1 = 1"
proof -
  have e: "exponentOf 1 = 0" by (simp add: exponentOf_def)
  have "1 / ulp 1 = 2 powr 52" unfolding ulp_def e by (simp add: powr_minus divide_simps)
  also have "\<dots> = of_int (2 ^ 52)" by simp
  finally have "roundPos 1 = 1" by (rule roundPos_exact)
  then show ?thesis by (simp add: toDouble_def)
qed

lemma toDouble_pow2_53: "toDouble (1 / 2 ^ 53) = 1 / 2 ^ 53"
proof -
  let ?x = "1 / 2 ^ 53 :: real"
  have x: "?x = 2 powr of_int (- 53)" by (simp add: powr_minus divide_simps)
  have e: "exponentOf ?x = - 53"
    by (rule exponentOf_eq) (simp_all add: powr_minus divide_simps)
  have u: "ulp ?x = 1 / 2 ^ 105" unfolding ulp_def e by (simp add: powr_minus divide_simps)
  have "?x / ulp ?x = of_int (2 ^ 52)" unfolding u by simp
  then have "roundPos ?x = ?x" by (rule roundPos_exact)
  then show ?thesis by (simp add: toDouble_def)
qed

lemma toDouble_pow2_55: "toDouble (1 / 2 ^ 55) = 1 / 2 ^ 55"
proof -
  let ?x = "1 / 2 ^ 55 :: real"
  have e: "exponentOf ?x = - 55"
    by (rule exponentOf_eq) (simp_all add: powr_minus divide_simps)
  have u: "ulp ?x = 1 / 2 ^ 107" unfolding ulp_def e by (simp add: powr_minus divide_simps)
  have "?x / ulp ?x = of_int (2 ^ 52)" unfolding u by simp
  then have "roundPos ?x = ?x" by (rule roundPos_exact)
  then show ?thesis by (simp add: toDouble_def)
qed

lemma toDouble_below_one: "toDouble (1 - 1 / 2 ^ 53) = 1 - 1 / 2 ^ 53"
proof -
  let ?x = "1 - 1 / 2 ^ 53 :: real"
  have e: "exponentOf ?x = - 1"
    by (rule exponentOf_eq) (simp_all add: powr_minus divide_simps)
  have u: "ulp ?x = 1 / 2 ^ 53" unfolding ulp_def e by (simp add: powr_minus divide_simps)
  have "?x / ulp ?x = of_int (2 ^ 53 - 1)" unfolding u by simp
  then have "roundPos ?x = ?x" by (rule roundPos_exact)
  then show ?thesis by (simp add: toDouble_def)
qed

lemma roundTiesToEven_up:
  assumes "of_int n + 1 / 2 < z" "z < of_int n + 1"
  shows "roundTiesToEven z = n + 1"
proof -
  have "\<lfloor>z\<rfloor> = n" using assms by linarith
  then show ?thesis using assms by (simp add: roundTiesToEven_def Let_def)
qed

lemma toDouble_rounds_to_one: "toDouble (1 - 1 / 2 ^ 55) = 1"
proof -
  let ?x = "1 - 1 / 2 ^ 55 :: real"
  have e: "exponentOf ?x = - 1"
    by (rule exponentOf_eq) (simp_all add: powr_minus divide_simps)
  have u: "ulp ?x = 1 / 2 ^ 53" unfolding ulp_def e by (simp add: powr_minus divide_simps)
  have q: "?x / ulp ?x = of_int (2 ^ 53 - 1) + 3 / 4" unfolding u by simp
  have "roundTiesToEven (of_int (2 ^ 53 - 1) + 3 / 4) = (2 ^ 53 - 1) + 1"
    by (rule roundTiesToEven_up) simp_all
  then have "roundTiesToEven (?x / ulp ?x) = 2 ^ 53" unfolding q by simp
  then have "roundPos ?x = of_int (2 ^ 53) * ulp ?x" by (simp only: roundPos_def)
  also have "\<dots> = 1" unfolding u by simp
  finally show ?thesis by (simp add: toDouble_def)
qed

lemma exp_40_lower: "2 ^ 55 \<le> exp (40 :: real)"
proof -
  have "(13 / 8 :: real) \<le> 1 + 1 / 2 + (1 / 2)\<^sup>2 / 2" by (simp add: power2_eq_square)
  also have "\<dots> \<le> exp (1 / 2)" by (rule exp_lower_Taylor_quadratic) simp
  finally have h: "(13 / 8 :: real) \<le> exp (1 / 2)" .
  have "(2 ^ 55 :: real) \<le> (13 / 8) ^ 80" by (simp add: power_divide)
  also have "\<dots> \<le> exp (1 / 2) ^ 80" using h by (intro power_mono) simp_all
  also have "\<dots> = exp (of_nat 80 * (1 / 2))" by (simp only: exp_of_nat_mult)
  also have "\<dots> = exp 40" by simp
  finally show ?thesis .
qed

lemma exp_33_upper: "exp (33 :: real) \<le> 2 ^ 53"
proof -
  have "exp (33 :: real) = exp (of_nat 33 * 1)" by simp
  also have "\<dots> = exp 1 ^ 33" by (simp only: exp_of_nat_mult)
  also have "\<dots> \<le> 3 ^ 33" using exp_le by (intro power_mono) simp_all
  also have "\<dots> \<le> 2 ^ 53" by simp
  finally show ?thesis .
qed

lemma mathExp_range:
  assumes "x \<le> 0"
  shows "0 \<le> mathExp x" "mathExp x \<le> 1"
proof -
  have "toDouble 0 \<le> toDouble (exp x)" by (rule toDouble_mono) simp
  then show "0 \<le> mathExp x" by (simp only: toDouble_zero mathExp_def)
  have "toDouble (exp x) \<le> toDouble 1" using assms by (intro toDouble_mono) simp
  then show "mathExp x \<le> 1" by (simp only: toDouble_one mathExp_def)
qed

lemma mathExp_mono: "x \<le> y \<Longrightarrow> mathExp x \<le> mathExp y"
  unfolding mathExp_def by (rule toDouble_mono) simp

lemma mathExp_zero: "mathExp 0 = 1"
  by (simp add: mathExp_def toDouble_one)

lemma calculateFinalAffinity_zero: "calculateFinalAffinity 0 = 0"
  by (simp add: calculateFinalAffinity_def mathExp_zero toDouble_zero)

lemma calculateFinalAffinity_mono:
  assumes "r \<le> r'"
  shows "calculateFinalAffinity r \<le> calculateFinalAffinity r'"
proof -
  have "mathExp (- r') \<le> mathExp (- r)" using assms by (intro mathExp_mono) simp
  then show ?thesis unfolding calculateFinalAffinity_def by (intro toDouble_mono) simp
qed

lemma calculateFinalAffinity_range:
  assumes "0 \<le> r"
  shows "0 \<le> calculateFinalAffinity r" "calculateFinalAffinity r \<le> 1"
proof -
  have m: "0 \<le> mathExp (- r)" "mathExp (- r) \<le> 1" using assms by (simp_all add: mathExp_range)
  have "toDouble 0 \<le> toDouble (1 - mathExp (- r))" using m by (intro toDouble_mono) simp
  then show "0 \<le> calculateFinalAffinity r" by (simp only: toDouble_zero calculateFinalAffinity_def)
  have "toDouble (1 - mathExp (- r)) \<le> toDouble 1" using m by (intro toDouble_mono) simp
  then show "calculateFinalAffinity r \<le> 1" by (simp only: toDouble_one calculateFinalAffinity_def)
qed

lemma calculateFinalAffinity_below_one:
  assumes "r \<le> 33"
  shows "calculateFinalAffinity r < 1"
proof -
  have "exp r \<le> exp 33" using assms by simp
  also have "\<dots> \<le> 2 ^ 53" by (rule exp_33_upper)
  finally have "1 / 2 ^ 53 \<le> 1 / exp r" by (intro divide_left_mono) simp_all
  then have "1 / 2 ^ 53 \<le> exp (- r)" by (simp add: exp_minus divide_simps)
  then have "toDouble (1 / 2 ^ 53) \<le> toDouble (exp (- r))" by (rule toDouble_mono)
  then have "1 / 2 ^ 53 \<le> mathExp (- r)" by (simp only: toDouble_pow2_53 mathExp_def)
  then have "1 - mathExp (- r) \<le> 1 - 1 / 2 ^ 53" by simp
  then have "toDouble (1 - mathExp (- r)) \<le> toDouble (1 - 1 / 2 ^ 53)" by (rule toDouble_mono)
  then have "calculateFinalAffinity r \<le> 1 - 1 / 2 ^ 53" by (simp only: toDouble_below_one calculateFinalAffinity_def)
  then show ?thesis by simp
qed

lemma calculateFinalAffinity_40: "calculateFinalAffinity 40 = 1"
proof -
  have "1 / exp (40 :: real) \<le> 1 / 2 ^ 55" using exp_40_lower by (intro divide_left_mono) simp_all
  then have "exp (- 40 :: real) \<le> 1 / 2 ^ 55" by (simp add: exp_minus divide_simps)
  then have "toDouble (exp (- 40)) \<le> toDouble (1 / 2 ^ 55)" by (rule toDouble_mono)
  then have "mathExp (- 40) \<le> 1 / 2 ^ 55" by (simp only: toDouble_pow2_55 mathExp_def)
  then have "1 - 1 / 2 ^ 55 \<le> 1 - mathExp (- 40)" by simp
  then have "toDouble (1 - 1 / 2 ^ 55) \<le> toDouble (1 - mathExp (- 40))" by (rule toDouble_mono)
  then have "1 \<le> calculateFinalAffinity 40" by (simp only: toDouble_rounds_to_one calculateFinalAffinity_def)
  moreover have "calculateFinalAffinity 40 \<le> 1" by (rule calculateFinalAffinity_range) simp
  ultimately show ?thesis by simp
qed

lemma ulp_le:
  assumes "0 < x" "x \<le> 1"
  shows "ulp x \<le> 1 / 2 ^ 52"
proof -
  have "log 2 x \<le> 0" using assms by simp
  then have "\<lfloor>log 2 x\<rfloor> \<le> 0" by linarith
  then have "exponentOf x \<le> 0" by (simp add: exponentOf_def)
  then have "(of_int (exponentOf x) - 52 :: real) \<le> - 52" by simp
  then have "ulp x \<le> 2 powr (- 52)" unfolding ulp_def by simp
  also have "\<dots> = 1 / 2 ^ 52" by (simp add: powr_minus divide_simps)
  finally show ?thesis .
qed

lemma roundPos_error: "\<bar>roundPos x - x\<bar> \<le> ulp x / 2"
proof -
  have "roundPos x - x = (of_int (roundTiesToEven (x / ulp x)) - x / ulp x) * ulp x"
    using ulp_pos [of x] by (simp add: roundPos_def algebra_simps)
  then have "\<bar>roundPos x - x\<bar> = \<bar>of_int (roundTiesToEven (x / ulp x)) - x / ulp x\<bar> * ulp x"
    using ulp_pos [of x] by (simp add: abs_mult)
  also have "\<dots> \<le> 1 / 2 * ulp x"
    using roundTiesToEven_error [of "x / ulp x"] ulp_pos [of x] by (intro mult_right_mono) simp_all
  finally show ?thesis by simp
qed

lemma toDouble_error:
  assumes "0 \<le> x" "x \<le> 1"
  shows "\<bar>toDouble x - x\<bar> \<le> 1 / 2 ^ 53"
proof (cases "x = 0")
  case True
  then show ?thesis by (simp add: toDouble_def)
next
  case False
  then have p: "0 < x" using assms by simp
  have "\<bar>roundPos x - x\<bar> \<le> ulp x / 2" by (rule roundPos_error)
  also have "\<dots> \<le> (1 / 2 ^ 52) / 2" using ulp_le [OF p assms(2)] by simp
  finally show ?thesis using p by (simp add: toDouble_def)
qed

lemma calculateFinalAffinity_error:
  assumes "0 \<le> r"
  shows "\<bar>calculateFinalAffinity r - (1 - exp (- r))\<bar> \<le> 1 / 2 ^ 52"
proof -
  have m: "0 \<le> mathExp (- r)" "mathExp (- r) \<le> 1" using assms by (simp_all add: mathExp_range)
  have a: "\<bar>mathExp (- r) - exp (- r)\<bar> \<le> 1 / 2 ^ 53"
    unfolding mathExp_def using assms by (intro toDouble_error) simp_all
  have b: "\<bar>calculateFinalAffinity r - (1 - mathExp (- r))\<bar> \<le> 1 / 2 ^ 53"
    unfolding calculateFinalAffinity_def using m by (intro toDouble_error) simp_all
  have "\<bar>calculateFinalAffinity r - (1 - exp (- r))\<bar> \<le> 1 / 2 ^ 53 + 1 / 2 ^ 53" using a b by linarith
  then show ?thesis by simp
qed

lemma calculateRawSignal_Max:
  "calculateRawSignal ws = (if ws = [] then 0 else Max (signal ` set ws))"
proof (cases ws)
  case Nil
  then show ?thesis by simp
next
  case (Cons w ws')
  then show ?thesis by (simp add: fold_max_Max)
qed

text \<open>
  Claim C6, as the code has it. The raw signal is the maximum of the weighted signals
  (their greatest element, not their sum) and 0 for the empty list; the final affinity is
  \<open>1 - Math.exp(-rawSignal)\<close> in double precision, which for a non-negative raw signal
  is within \<open>2 ^ -52\<close> of \<open>1 - exp (- rawSignal)\<close>; it is 0 at 0, monotone, in \<open>[0, 1]\<close>
  for every non-negative raw signal, and below 1 for every raw signal up to 33.
\<close>

theorem affinity_transform_spec:
  "calculateRawSignal ws = (if ws = [] then 0 else Max (signal ` set ws))
   \<and> calculateFinalAffinity r = toDouble (1 - toDouble (exp (- r)))
   \<and> (0 \<le> r \<longrightarrow> \<bar>calculateFinalAffinity r - (1 - exp (- r))\<bar> \<le> 1 / 2 ^ 52)
   \<and> calculateFinalAffinity 0 = 0
   \<and> (r \<le> r' \<longrightarrow> calculateFinalAffinity r \<le> calculateFinalAffinity r')
   \<and> (0 \<le> r \<longrightarrow> 0 \<le> calculateFinalAffinity r \<and> calculateFinalAffinity r \<le> 1)
   \<and> (0 \<le> r \<and> r \<le> 33 \<longrightarrow> calculateFinalAffinity r < 1)"
  using calculateRawSignal_Max [of ws] calculateFinalAffinity_error [of r]
    calculateFinalAffinity_zero calculateFinalAffinity_mono [of r r']
    calculateFinalAffinity_range [of r] calculateFinalAffinity_below_one [of r]
  by (simp add: calculateFinalAffinity_def mathExp_def)

theorem affinity_transform_spec_witness:
  "calculateRawSignal [\<lparr> ws_categoryId = ''a'', signal = 2 / 10 \<rparr>,
                       \<lparr> ws_categoryId = ''b'', signal = 3 / 10 \<rparr>] = 3 / 10
   \<and> calculateRawSignal [] = 0
   \<and> calculateFinalAffinity 0 = 0
   \<and> \<bar>calculateFinalAffinity (1 / 2) - (1 - exp (- (1 / 2)))\<bar> \<le> 1 / 2 ^ 52
   \<and> calculateFinalAffinity (1 / 2) \<le> calculateFinalAffinity 1
   \<and> 0 \<le> calculateFinalAffinity (1 / 2) \<and> calculateFinalAffinity (1 / 2) < 1"
proof -
  let ?ws = "[\<lparr> ws_categoryId = ''a'', signal = 2 / 10 \<rparr>,
              \<lparr> ws_categoryId = ''b'', signal = 3 / 10 \<rparr>]"
  note t = affinity_transform_spec [of ?ws "1 / 2" 1]
  note e = affinity_transform_spec [of "[]" 0 0]
  have r: "(0 :: real) \<le> 1 / 2" "(1 / 2 :: real) \<le> 1" "(1 / 2 :: real) \<le> 33" by simp_all
  have "calculateRawSignal ?ws = 3 / 10" using t by simp
  moreover have "calculateRawSignal [] = 0" using e by simp
  moreover have "calculateFinalAffinity 0 = 0" using t by (elim conjE)
  moreover have "\<bar>calculateFinalAffinity (1 / 2) - (1 - exp (- (1 / 2)))\<bar> \<le> 1 / 2 ^ 52"
    using t r by blast
  moreover have "calculateFinalAffinity (1 / 2) \<le> calculateFinalAffinity 1" using t r by blast
  moreover have "0 \<le> calculateFinalAffinity (1 / 2)" using t r by blast
  moreover have "calculateFinalAffinity (1 / 2) < 1" using t r by blast
  ultimately show ?thesis by (intro conjI)
qed

text \<open>
  Claim C6 as the specification words it, with the half-open interval \<open>[0, 1)\<close> for
  every non-negative raw signal, does not hold of the code: \<open>exp (- 40)\<close> is below
  \<open>2 ^ -55\<close>, so \<open>1 - Math.exp(-40)\<close> rounds to 1 and the affinity at raw signal 40 is
  exactly 1.
\<close>

theorem calculateFinalAffinity_reaches_one_counterexample:
  "calculateFinalAffinity 40 = 1"
  by (rule calculateFinalAffinity_40)

subsection \<open>Eligibility\<close>

lemma DateFromTime_examples:
  "DateFromTime 0 = 1" "DateFromTime (- 1) = 31"
  "DateFromTime 1709164800000 = 29" "DateFromTime 1710504000000 = 15"
  by (simp_all add: DateFromTime_def Day_def msPerDay_def Let_def)

lemma setDate_getDate: "setDate tz r (getDate tz r - d) = TimeClip (daysBefore tz r d)"
proof -
  let ?tl = "LocalTime tz r"
  have "MakeDate (Day ?tl - DateFromTime ?tl + 1 + (DateFromTime ?tl - d) - 1) (TimeWithinDay ?tl)
          = (?tl div msPerDay) * msPerDay + ?tl mod msPerDay - d * msPerDay"
    by (simp add: MakeDate_def Day_def TimeWithinDay_def algebra_simps)
  also have "\<dots> = ?tl - d * msPerDay" by (simp only: div_mult_mod_eq)
  finally show ?thesis by (simp add: setDate_def getDate_def daysBefore_def Let_def)
qed

lemma dateGe_TimeClip: "dateGe a (TimeClip u) \<longleftrightarrow> \<bar>u\<bar> \<le> maxTime \<and> u \<le> a"
  by (simp add: dateGe_def TimeClip_def)

lemma isCustomerEligible_iff:
  "isCustomerEligible tz h g d r
     \<longleftrightarrow> \<not> has (cph_categories h) g \<and> activeInWindow tz (lastOrderDate h) d r"
  by (simp add: isCustomerEligible_def Let_def setDate_getDate dateGe_TimeClip activeInWindow_def)

lemma daysBefore_constant_offset:
  assumes "\<And>t b. tz t b = z"
  shows "daysBefore tz r d = r - d * msPerDay"
  by (simp add: daysBefore_def UTC_def LocalTime_def assms)

text \<open>
  Claim C7, as the code has it. \<open>isCustomerEligible\<close> holds exactly when the history's
  category map does not contain the goal category, the cutoff is a valid date, and the last
  order date is at or after the cutoff, the boundary included. The cutoff is the reference
  date moved back by \<open>activityDays\<close> calendar days in the local time zone, at the same local
  time of day; where the offset of the time zone is constant it is the reference date
  minus \<open>activityDays\<close> times 86400000 ms. A customer whose history contains the goal
  category is never eligible, whatever the window and the reference date.
\<close>

theorem isCustomerEligible_spec:
  "(isCustomerEligible tz h g d r \<longleftrightarrow>
      (\<not> has (cph_categories h) g
       \<and> \<bar>daysBefore tz r d\<bar> \<le> maxTime \<and> daysBefore tz r d \<le> lastOrderDate h))
   \<and> (has (cph_categories h) g \<longrightarrow> \<not> isCustomerEligible tz h g d r)
   \<and> ((\<forall>t b. tz t b = z) \<longrightarrow> daysBefore tz r d = r - d * msPerDay)"
proof (intro conjI impI)
  show "isCustomerEligible tz h g d r \<longleftrightarrow>
      (\<not> has (cph_categories h) g
       \<and> \<bar>daysBefore tz r d\<bar> \<le> maxTime \<and> daysBefore tz r d \<le> lastOrderDate h)"
    by (simp only: isCustomerEligible_iff activeInWindow_def)
  show "\<not> isCustomerEligible tz h g d r" if "has (cph_categories h) g"
    using that by (simp add: isCustomerEligible_iff)
  show "daysBefore tz r d = r - d * msPerDay" if "\<forall>t b. tz t b = z"
    using that by (intro daysBefore_constant_offset) simp
qed

theorem isCustomerEligible_spec_witness:
  "\<not> isCustomerEligible utc
      \<lparr> cph_customerId = ''c1'',
        cph_categories = [(''toys'', \<lparr> cpi_categoryId = ''toys'', frequency = 1,
                                      lastPurchaseDate = 0, isLastOrder = True \<rparr>)],
        lastOrderDate = 0, cph_totalOrders = 1 \<rparr> ''toys'' 120 (100 * msPerDay)
   \<and> isCustomerEligible utc
      \<lparr> cph_customerId = ''c1'',
        cph_categories = [(''toys'', \<lparr> cpi_categoryId = ''toys'', frequency = 1,
                                      lastPurchaseDate = 0, isLastOrder = True \<rparr>)],
        lastOrderDate = 0, cph_totalOrders = 1 \<rparr> ''beauty'' 120 (100 * msPerDay)
   \<and> isCustomerEligible utc
      \<lparr> cph_customerId = ''c1'',
        cph_categories = [(''toys'', \<lparr> cpi_categoryId = ''toys'', frequency = 1,
                                      lastPurchaseDate = 0, isLastOrder = True \<rparr>)],
        lastOrderDate = 0, cph_totalOrders = 1 \<rparr> ''beauty'' 100 (100 * msPerDay)
   \<and> \<not> isCustomerEligible utc
      \<lparr> cph_customerId = ''c1'',
        cph_categories = [(''toys'', \<lparr> cpi_categoryId = ''toys'', frequency = 1,
                                      lastPurchaseDate = 0, isLastOrder = True \<rparr>)],
        lastOrderDate = 0, cph_totalOrders = 1 \<rparr> ''beauty'' 90 (100 * msPerDay)"
proof -
  let ?h = "\<lparr> cph_customerId = ''c1'',
        cph_categories = [(''toys'', \<lparr> cpi_categoryId = ''toys'', frequency = 1,
                                      lastPurchaseDate = 0, isLastOrder = True \<rparr>)],
        lastOrderDate = 0, cph_totalOrders = 1 \<rparr>"
  have a: "has (cph_categories ?h) ''toys''" by (simp add: has_def)
  have b: "\<not> has (cph_categories ?h) ''beauty''" by (simp add: has_def)
  have z: "\<forall>t b. utc t b = 0" by (simp add: utc_def)
  have d120: "daysBefore utc (100 * msPerDay) 120 = 100 * msPerDay - 120 * msPerDay"
    by (rule isCustomerEligible_spec [of utc ?h "''beauty''" 120 "100 * msPerDay" 0,
          THEN conjunct2, THEN conjunct2, THEN mp, OF z])
  have d100: "daysBefore utc (100 * msPerDay) 100 = 100 * msPerDay - 100 * msPerDay"
    by (rule isCustomerEligible_spec [of utc ?h "''beauty''" 100 "100 * msPerDay" 0,
          THEN conjunct2, THEN conjunct2, THEN mp, OF z])
  have d90: "daysBefore utc (100 * msPerDay) 90 = 100 * msPerDay - 90 * msPerDay"
    by (rule isCustomerEligible_spec [of utc ?h "''beauty''" 90 "100 * msPerDay" 0,
          THEN conjunct2, THEN conjunct2, THEN mp, OF z])
  have c120: "\<bar>daysBefore utc (100 * msPerDay) 120\<bar> \<le> maxTime
               \<and> daysBefore utc (100 * msPerDay) 120 \<le> lastOrderDate ?h"
    by (simp only: d120) (simp add: msPerDay_def maxTime_def)
  have c100: "\<bar>daysBefore utc (100 * msPerDay) 100\<bar> \<le> maxTime
               \<and> daysBefore utc (100 * msPerDay) 100 \<le> lastOrderDate ?h"
    by (simp only: d100) (simp add: msPerDay_def maxTime_def)
  have c90: "\<not> daysBefore utc (100 * msPerDay) 90 \<le> lastOrderDate ?h"
    by (simp only: d90) (simp add: msPerDay_def)
  have 1: "\<not> isCustomerEligible utc ?h ''toys'' 120 (100 * msPerDay)"
    using isCustomerEligible_spec [of utc ?h "''toys''" 120 "100 * msPerDay" 0] a by blast
  have 2: "isCustomerEligible utc ?h ''beauty'' 120 (100 * msPerDay)"
    using isCustomerEligible_spec [of utc ?h "''beauty''" 120 "100 * msPerDay" 0] b c120
    by blast
  have 3: "isCustomerEligible utc ?h ''beauty'' 100 (100 * msPerDay)"
    using isCustomerEligible_spec [of utc ?h "''beauty''" 100 "100 * msPerDay" 0] b c100
    by blast
  have 4: "\<not> isCustomerEligible utc ?h ''beauty'' 90 (100 * msPerDay)"
    using isCustomerEligible_spec [of utc ?h "''beauty''" 90 "100 * msPerDay" 0] c90
    by blast
  show ?thesis by (intro conjI 1 2 3 4)
qed

text \<open>
  Claim C7 as stated fails where the cutoff leaves the range of \<open>Date\<close>: with the reference
  date at the epoch and a window of 200000000 days, \<open>setDate\<close> makes the cutoff an Invalid
  Date and the comparison is false, so a customer without the goal category whose last
  order is at the epoch, after the reference date minus the window, is not eligible.
\<close>

lemma getDate_utc_epoch: "getDate utc 0 = 1"
  by (simp add: getDate_def LocalTime_def utc_def DateFromTime_examples)

lemma setDate_utc_out_of_range: "setDate utc 0 (getDate utc 0 - 200000000) = None"
  by (simp add: getDate_utc_epoch setDate_def LocalTime_def utc_def DateFromTime_examples
      Day_def TimeWithinDay_def MakeDate_def UTC_def TimeClip_def msPerDay_def maxTime_def)

theorem isCustomerEligible_range_counterexample:
  "\<not> isCustomerEligible utc
      \<lparr> cph_customerId = ''c1'',
        cph_categories = [(''toys'', \<lparr> cpi_categoryId = ''toys'', frequency = 1,
                                      lastPurchaseDate = 0, isLastOrder = True \<rparr>)],
        lastOrderDate = 0, cph_totalOrders = 1 \<rparr> ''beauty'' 200000000 0
   \<and> \<not> has (cph_categories
      \<lparr> cph_customerId = ''c1'',
        cph_categories = [(''toys'', \<lparr> cpi_categoryId = ''toys'', frequency = 1,
                                      lastPurchaseDate = 0, isLastOrder = True \<rparr>)],
        lastOrderDate = (0::int), cph_totalOrders = 1 \<rparr>) ''beauty''
   \<and> lastOrderDate
      \<lparr> cph_customerId = ''c1'',
        cph_categories = [(''toys'', \<lparr> cpi_categoryId = ''toys'', frequency = 1,
                                      lastPurchaseDate = 0, isLastOrder = True \<rparr>)],
        lastOrderDate = (0::int), cph_totalOrders = 1 \<rparr> \<ge> 0 - 200000000 * msPerDay"
  by (simp add: isCustomerEligible_def setDate_utc_out_of_range dateGe_def has_def
      msPerDay_def)

text \<open>
  Calendar days are not spans of 24 hours where the clocks change. In New York the clocks
  went forward on 10 March 2024; ten days before 15 March 2024, 08:00 local time
  (12:00 UTC), is 5 March 2024, 08:00 local time (13:00 UTC), an hour later than 240 hours
  before the reference date. A last order at 12:00 UTC of 5 March is then outside a window
  of ten days.
\<close>

lemma LocalTime_newYork_example: "LocalTime newYork2024 1710504000000 = 1710489600000"
  by (simp add: LocalTime_def newYork2024_def)

lemma DateFromTime_newYork_example: "DateFromTime 1710489600000 = 15"
  by (simp add: DateFromTime_def Day_def msPerDay_def Let_def)

lemma setDate_newYork_example:
  "setDate newYork2024 1710504000000 (getDate newYork2024 1710504000000 - 10)
     = Some 1709643600000"
  "1710504000000 - 10 * msPerDay = 1709640000000"
  "\<not> dateGe 1709640000000
       (setDate newYork2024 1710504000000 (getDate newYork2024 1710504000000 - 10))"
proof -
  have g: "getDate newYork2024 1710504000000 = 15"
    by (simp add: getDate_def LocalTime_newYork_example DateFromTime_newYork_example)
  show s: "setDate newYork2024 1710504000000 (getDate newYork2024 1710504000000 - 10)
     = Some 1709643600000"
    by (simp add: g setDate_def LocalTime_newYork_example DateFromTime_newYork_example Day_def
        TimeWithinDay_def MakeDate_def UTC_def TimeClip_def newYork2024_def msPerDay_def
        maxTime_def)
  show "1710504000000 - 10 * msPerDay = 1709640000000" by (simp add: msPerDay_def)
  show "\<not> dateGe 1709640000000
       (setDate newYork2024 1710504000000 (getDate newYork2024 1710504000000 - 10))"
    by (simp only: s) (simp add: dateGe_def)
qed

subsection \<open>Loops over a matrix\<close>

lemma forEach_upt:
  assumes "a \<le> b" and "Inv a s"
    and "\<And>k t. a \<le> k \<Longrightarrow> k < b \<Longrightarrow> Inv k t \<Longrightarrow> \<exists>t'. body k t = Inr t' \<and> Inv (Suc k) t'"
  shows "\<exists>s'. forEach [a..<b] body s = Inr s' \<and> Inv b s'"
  using assms
proof (induction "b - a" arbitrary: a s)
  case 0
  then show ?case by simp
next
  case (Suc d)
  then have lt: "a < b" by simp
  obtain t where t: "body a s = Inr t" "Inv (Suc a) t"
    using Suc.prems(3) [of a s] Suc.prems(2) lt by auto
  have "\<exists>s'. forEach [Suc a..<b] body t = Inr s' \<and> Inv b s'"
  proof (rule Suc.hyps(1))
    show "d = b - Suc a" using Suc.hyps(2) by simp
    show "Suc a \<le> b" using lt by simp
    show "Inv (Suc a) t" by (rule t(2))
    show "\<exists>t'. body k u = Inr t' \<and> Inv (Suc k) t'" if "Suc a \<le> k" "k < b" "Inv k u" for k u
      using Suc.prems(3) [of k u] that by simp
  qed
  then show ?case using t(1) lt by (simp add: upt_conv_Cons)
qed

lemma square_zeros: "square n (zeros n)"
  by (simp add: square_def zeros_def list_all_length)

lemma zeros_nth: "i < n \<Longrightarrow> j < n \<Longrightarrow> zeros n ! i ! j = 0"
  by (simp add: zeros_def)

lemma square_length: "square n m \<Longrightarrow> length m = n"
  by (simp add: square_def)

lemma square_row: "square n m \<Longrightarrow> i < n \<Longrightarrow> length (m ! i) = n"
  by (simp add: square_def list_all_length)

lemma square_wr: "square n m \<Longrightarrow> square n (wr m i j v)"
  by (cases "i < length m") (auto simp add: square_def wr_def list_all_length nth_list_update)

lemma wr_cell:
  "square n m \<Longrightarrow> i < n \<Longrightarrow> j < n \<Longrightarrow>
     wr m i j v ! r ! c = (if r = i \<and> c = j then v else m ! r ! c)"
  by (auto simp add: square_def wr_def list_all_length nth_list_update)

lemma rd_square: "square n m \<Longrightarrow> i < n \<Longrightarrow> j < n \<Longrightarrow> rd m i j = Inr (Some (m ! i ! j))"
  by (simp add: rd_def square_def list_all_length)

lemma coAffinityCell_square:
  assumes "square n (nm_matrix nl)" "square n (nm_matrix nc)" "i < n" "j < n"
  shows "coAffinityCell nl nc i j m = Inr (wr m i j (coAffinityValue nl nc i j))"
  using assms
  by (simp add: coAffinityCell_def coAffinityValue_def rd_square LIFT_WEIGHT_def CO_ORDERS_WEIGHT_def)

lemma coAffinity_row:
  assumes nl: "square n (nm_matrix nl)" and nc: "square n (nm_matrix nc)"
    and i: "i < n" and m: "square n m"
  shows "\<exists>m'. forEach [0..<n] (coAffinityCell nl nc i) m = Inr m' \<and> square n m'
           \<and> (\<forall>r c. m' ! r ! c = (if r = i \<and> c < n then coAffinityValue nl nc i c else m ! r ! c))"
proof -
  let ?Inv = "\<lambda>k m'. square n m' \<and> 
      (\<forall>r c. m' ! r ! c = (if r = i \<and> c < k then coAffinityValue nl nc i c else m ! r ! c))"
  have "\<exists>s'. forEach [0..<n] (coAffinityCell nl nc i) m = Inr s' \<and> ?Inv n s'"
  proof (rule forEach_upt [where Inv = "?Inv"])
    show "0 \<le> n" by simp
    show "?Inv 0 m" using m by simp
    show "\<exists>t'. coAffinityCell nl nc i k t = Inr t' \<and> ?Inv (Suc k) t'"
      if "0 \<le> k" "k < n" "?Inv k t" for k t
    proof -
      have st: "square n t" using that(3) by simp
      have "?Inv (Suc k) (wr t i k (coAffinityValue nl nc i k))"
        using that(3) by (auto simp add: square_wr wr_cell [OF st i that(2)] less_Suc_eq)
      then show ?thesis using coAffinityCell_square [OF nl nc i that(2)] by simp
    qed
  qed
  then show ?thesis by blast
qed

lemma coAffinity_loops:
  assumes nl: "square n (nm_matrix nl)" and nc: "square n (nm_matrix nc)"
  shows "\<exists>m'. forEach [0..<n] (\<lambda>i. forEach [0..<n] (coAffinityCell nl nc i)) (zeros n) = Inr m'
           \<and> square n m' \<and> (\<forall>r<n. \<forall>c<n. m' ! r ! c = coAffinityValue nl nc r c)"
proof -
  let ?Inv = "\<lambda>k m'. square n m' \<and>
      (\<forall>r c. m' ! r ! c = (if r < k \<and> c < n then coAffinityValue nl nc r c else zeros n ! r ! c))"
  have "\<exists>s'. forEach [0..<n] (\<lambda>i. forEach [0..<n] (coAffinityCell nl nc i)) (zeros n) = Inr s'
          \<and> ?Inv n s'"
  proof (rule forEach_upt [where Inv = "?Inv"])
    show "0 \<le> n" by simp
    show "?Inv 0 (zeros n)" by (simp add: square_zeros)
    show "\<exists>t'. forEach [0..<n] (coAffinityCell nl nc k) t = Inr t' \<and> ?Inv (Suc k) t'"
      if "0 \<le> k" and kn: "k < n" and inv: "?Inv k t" for k t
    proof -
      have st: "square n t" using inv by simp
      obtain t' where t': "forEach [0..<n] (coAffinityCell nl nc k) t = Inr t'" "square n t'"
        "\<forall>r c. t' ! r ! c = (if r = k \<and> c < n then coAffinityValue nl nc k c else t ! r ! c)"
        using coAffinity_row [OF nl nc kn st] by blast
      have "?Inv (Suc k) t'" using t'(2,3) inv by (auto simp add: less_Suc_eq)
      then show ?thesis using t'(1) by blast
    qed
  qed
  then show ?thesis by auto
qed


subsection \<open>The CoAffinity matrix\<close>

text \<open>
  Claim C2. For two normalized matrices over the same list of \<open>n\<close> categories,
  \<open>calculateCoAffinityMatrix\<close> returns a matrix that holds
  \<open>0.7 * normalizedLift[i][j] + 0.3 * normalizedCoOrders[i][j]\<close> at every position off the
  diagonal and 0 on the diagonal, and carries the categories list over unchanged.
\<close>

theorem calculateCoAffinityMatrix_spec:
  assumes "categories nc = categories nl"
    and "square (length (categories nl)) (nm_matrix nl)"
    and "square (length (categories nl)) (nm_matrix nc)"
  shows "\<exists>ca. calculateCoAffinityMatrix nl nc = Inr ca
           \<and> ca_categories ca = categories nl \<and> ca_categories ca = categories nc
           \<and> square (length (categories nl)) (ca_matrix ca)
           \<and> (\<forall>i<length (categories nl). \<forall>j<length (categories nl).
                 ca_matrix ca ! i ! j =
                   (if i = j then 0
                    else 7 / 10 * (nm_matrix nl ! i ! j) + 3 / 10 * (nm_matrix nc ! i ! j)))"
proof -
  obtain m' where m': "forEach [0..<length (categories nl)]
        (\<lambda>i. forEach [0..<length (categories nl)] (coAffinityCell nl nc i))
        (zeros (length (categories nl))) = Inr m'"
      "square (length (categories nl)) m'"
      "\<forall>r<length (categories nl). \<forall>c<length (categories nl). m' ! r ! c = coAffinityValue nl nc r c"
    using coAffinity_loops [OF assms(2,3)] by blast
  have "calculateCoAffinityMatrix nl nc
          = Inr \<lparr> ca_categories = categories nl, ca_matrix = m' \<rparr>"
    using m'(1) by (simp add: calculateCoAffinityMatrix_def)
  then show ?thesis using m'(2,3) assms(1) by (simp add: coAffinityValue_def)
qed

theorem calculateCoAffinityMatrix_spec_witness:
  "\<exists>ca. calculateCoAffinityMatrix
           \<lparr> categories = [''a'', ''b''], nm_matrix = [[0, 1], [1, 0]], p5 = 0, p95 = 1 \<rparr>
           \<lparr> categories = [''a'', ''b''], nm_matrix = [[0, 1 / 2], [1 / 2, 0]], p5 = 0, p95 = 1 \<rparr>
          = Inr ca
        \<and> ca_categories ca = [''a'', ''b'']
        \<and> ca_matrix ca ! 0 ! 0 = 0 \<and> ca_matrix ca ! 0 ! 1 = 17 / 20
        \<and> ca_matrix ca ! 1 ! 0 = 17 / 20 \<and> ca_matrix ca ! 1 ! 1 = 0"
proof -
  let ?nl = "\<lparr> categories = [''a'', ''b''], nm_matrix = [[0, 1], [1, 0]], p5 = 0, p95 = (1::real) \<rparr>"
  let ?nc = "\<lparr> categories = [''a'', ''b''], nm_matrix = [[0, 1 / 2], [1 / 2, 0]], p5 = 0, p95 = (1::real) \<rparr>"
  have a: "categories ?nc = categories ?nl" by simp
  have b: "square (length (categories ?nl)) (nm_matrix ?nl)" by (simp add: square_def)
  have c: "square (length (categories ?nl)) (nm_matrix ?nc)" by (simp add: square_def)
  obtain ca where ca: "calculateCoAffinityMatrix ?nl ?nc = Inr ca"
      "ca_categories ca = categories ?nl"
      "\<forall>i<length (categories ?nl). \<forall>j<length (categories ?nl).
                 ca_matrix ca ! i ! j =
                   (if i = j then 0
                    else 7 / 10 * (nm_matrix ?nl ! i ! j) + 3 / 10 * (nm_matrix ?nc ! i ! j))"
    using calculateCoAffinityMatrix_spec [OF a b c] by blast
  have "ca_matrix ca ! 0 ! 0 = 0" "ca_matrix ca ! 0 ! 1 = 17 / 20"
       "ca_matrix ca ! 1 ! 0 = 17 / 20" "ca_matrix ca ! 1 ! 1 = 0"
    using ca(3) by simp_all
  then show ?thesis using ca(1,2) by simp
qed

text \<open>
  Claim C1, as the code has it. \<open>calculateCoAffinityMatrix\<close> never compares the two
  categories lists: whenever both matrices have the size of \<open>normalizedLift.categories\<close>
  it returns a matrix, also when the lists differ, with \<open>normalizedLift.categories\<close> as
  its categories and the cells blended at equal indices; the categories of
  \<open>normalizedCoOrders\<close> have no effect on the result.
\<close>

theorem calculateCoAffinityMatrix_ignores_categories:
  assumes "square (length (categories nl)) (nm_matrix nl)"
    and "square (length (categories nl)) (nm_matrix nc)"
  shows "\<exists>ca. calculateCoAffinityMatrix nl nc = Inr ca
           \<and> calculateCoAffinityMatrix nl (nc\<lparr> categories := cs \<rparr>) = Inr ca
           \<and> ca_categories ca = categories nl
           \<and> (\<forall>i<length (categories nl). \<forall>j<length (categories nl).
                 ca_matrix ca ! i ! j = coAffinityValue nl nc i j)"
proof -
  obtain m' where m': "forEach [0..<length (categories nl)]
        (\<lambda>i. forEach [0..<length (categories nl)] (coAffinityCell nl nc i))
        (zeros (length (categories nl))) = Inr m'"
      "\<forall>r<length (categories nl). \<forall>c<length (categories nl). m' ! r ! c = coAffinityValue nl nc r c"
    using coAffinity_loops [OF assms] by blast
  have same: "coAffinityCell nl (nc\<lparr> categories := cs \<rparr>) = coAffinityCell nl nc"
    by (intro ext) (simp add: coAffinityCell_def cong: sum.case_cong)
  have "calculateCoAffinityMatrix nl nc
          = Inr \<lparr> ca_categories = categories nl, ca_matrix = m' \<rparr>"
    using m'(1) by (simp add: calculateCoAffinityMatrix_def)
  moreover have "calculateCoAffinityMatrix nl (nc\<lparr> categories := cs \<rparr>)
          = Inr \<lparr> ca_categories = categories nl, ca_matrix = m' \<rparr>"
    using m'(1) by (simp add: calculateCoAffinityMatrix_def same)
  ultimately show ?thesis using m'(2) by simp
qed

theorem calculateCoAffinityMatrix_ignores_categories_witness:
  "\<exists>ca. calculateCoAffinityMatrix
           \<lparr> categories = [''a'', ''b''], nm_matrix = [[0, 1], [1, 0]], p5 = 0, p95 = 1 \<rparr>
           \<lparr> categories = [''b'', ''a''], nm_matrix = [[0, 1 / 2], [1 / 2, 0]], p5 = 0, p95 = 1 \<rparr>
          = Inr ca
        \<and> ca_categories ca = [''a'', ''b''] \<and> ca_matrix ca ! 0 ! 1 = 17 / 20"
proof -
  let ?nl = "\<lparr> categories = [''a'', ''b''], nm_matrix = [[0, 1], [1, 0]], p5 = 0, p95 = (1::real) \<rparr>"
  let ?nc = "\<lparr> categories = [''b'', ''a''], nm_matrix = [[0, 1 / 2], [1 / 2, 0]], p5 = 0, p95 = (1::real) \<rparr>"
  have b: "square (length (categories ?nl)) (nm_matrix ?nl)" by (simp add: square_def)
  have c: "square (length (categories ?nl)) (nm_matrix ?nc)" by (simp add: square_def)
  obtain ca where ca: "calculateCoAffinityMatrix ?nl ?nc = Inr ca"
      "ca_categories ca = categories ?nl"
      "\<forall>i<length (categories ?nl). \<forall>j<length (categories ?nl).
                 ca_matrix ca ! i ! j = coAffinityValue ?nl ?nc i j"
    using calculateCoAffinityMatrix_ignores_categories [OF b c] by blast
  have "ca_matrix ca ! 0 ! 1 = 17 / 20"
    using ca(3) by (simp add: coAffinityValue_def)
  then show ?thesis using ca(1,2) by simp
qed

text \<open>
  Claim C1 as stated fails: for the categories lists \<open>[a, b]\<close> and \<open>[b, a]\<close> the function
  raises nothing and returns the matrix blended at equal indices.
\<close>

theorem calculateCoAffinityMatrix_no_assert_counterexample:
  "categories \<lparr> categories = [''a'', ''b''], nm_matrix = [[0, 1], [1, 0]], p5 = 0, p95 = 1 \<rparr>
     \<noteq> categories \<lparr> categories = [''b'', ''a''], nm_matrix = [[0, 1 / 2], [1 / 2, 0]], p5 = 0, p95 = 1 \<rparr>
   \<and> calculateCoAffinityMatrix
        \<lparr> categories = [''a'', ''b''], nm_matrix = [[0, 1], [1, 0]], p5 = 0, p95 = 1 \<rparr>
        \<lparr> categories = [''b'', ''a''], nm_matrix = [[0, 1 / 2], [1 / 2, 0]], p5 = 0, p95 = 1 \<rparr>
      = Inr \<lparr> ca_categories = [''a'', ''b''], ca_matrix = [[0, 17 / 20], [17 / 20, 0]] \<rparr>"
  by (simp add: calculateCoAffinityMatrix_def coAffinityCell_def rd_def wr_def zeros_def
      LIFT_WEIGHT_def CO_ORDERS_WEIGHT_def upt_rec [of 0] upt_rec [of 1] upt_rec [of 2]
      numeral_2_eq_2)

subsection \<open>The lift matrix\<close>

lemma liftCell_square:
  assumes "square n (com_matrix com)" "i < n" "j < n"
  shows "liftCell com i j t = Inr (wr (wr t i j (liftValue com i j)) j i (liftValue com i j))"
  using assms by (simp add: liftCell_def liftValue_def rd_square Let_def)

lemma lift_row:
  assumes com: "square n (com_matrix com)" and i: "i < n" and m: "square n m"
  shows "\<exists>m'. forEach [Suc i..<n] (liftCell com i) m = Inr m' \<and> square n m'
           \<and> (\<forall>r c. m' ! r ! c =
                 (if r = i \<and> i < c \<and> c < n then liftValue com i c
                  else if c = i \<and> i < r \<and> r < n then liftValue com i r
                  else m ! r ! c))"
proof -
  let ?Inv = "\<lambda>k m'. square n m' \<and>
      (\<forall>r c. m' ! r ! c =
                 (if r = i \<and> i < c \<and> c < k then liftValue com i c
                  else if c = i \<and> i < r \<and> r < k then liftValue com i r
                  else m ! r ! c))"
  have "\<exists>s'. forEach [Suc i..<n] (liftCell com i) m = Inr s' \<and> ?Inv n s'"
  proof (rule forEach_upt [where Inv = "?Inv"])
    show "Suc i \<le> n" using i by simp
    show "?Inv (Suc i) m" using m by auto
    show "\<exists>t'. liftCell com i k t = Inr t' \<and> ?Inv (Suc k) t'"
      if ik: "Suc i \<le> k" and kn: "k < n" and inv: "?Inv k t" for k t
    proof -
      let ?L = "liftValue com i k"
      have st: "square n t" using inv by simp
      have st1: "square n (wr t i k ?L)" using st by (rule square_wr)
      have cells: "wr (wr t i k ?L) k i ?L ! r ! c =
          (if (r = i \<and> c = k) \<or> (r = k \<and> c = i) then ?L else t ! r ! c)" for r c
      proof -
        have "wr (wr t i k ?L) k i ?L ! r ! c =
            (if r = k \<and> c = i then ?L else wr t i k ?L ! r ! c)"
          by (rule wr_cell [OF st1 kn i])
        also have "wr t i k ?L ! r ! c = (if r = i \<and> c = k then ?L else t ! r ! c)"
          by (rule wr_cell [OF st i kn])
        finally show ?thesis by presburger
      qed
      have "square n (wr (wr t i k ?L) k i ?L)" using st1 by (rule square_wr)
      moreover have "wr (wr t i k ?L) k i ?L ! r ! c =
                 (if r = i \<and> i < c \<and> c < Suc k then liftValue com i c
                  else if c = i \<and> i < r \<and> r < Suc k then liftValue com i r
                  else m ! r ! c)" for r c
        using inv ik by (auto simp add: cells less_Suc_eq)
      ultimately have "?Inv (Suc k) (wr (wr t i k ?L) k i ?L)" by blast
      then show ?thesis using liftCell_square [OF com i kn] by simp
    qed
  qed
  then show ?thesis by blast
qed

lemma lift_loops:
  assumes com: "square n (com_matrix com)"
  shows "\<exists>m'. forEach [0..<n] (\<lambda>i. forEach [Suc i..<n] (liftCell com i)) (zeros n) = Inr m'
           \<and> square n m'
           \<and> (\<forall>r<n. \<forall>c<n. m' ! r ! c =
                 (if r < c then liftValue com r c else if c < r then liftValue com c r else 0))"
proof -
  let ?Inv = "\<lambda>k m'. square n m' \<and>
      (\<forall>r c. m' ! r ! c =
                 (if r < k \<and> r < c \<and> c < n then liftValue com r c
                  else if c < k \<and> c < r \<and> r < n then liftValue com c r
                  else zeros n ! r ! c))"
  have "\<exists>s'. forEach [0..<n] (\<lambda>i. forEach [Suc i..<n] (liftCell com i)) (zeros n) = Inr s'
          \<and> ?Inv n s'"
  proof (rule forEach_upt [where Inv = "?Inv"])
    show "0 \<le> n" by simp
    show "?Inv 0 (zeros n)" by (simp add: square_zeros)
    show "\<exists>t'. forEach [Suc k..<n] (liftCell com k) t = Inr t' \<and> ?Inv (Suc k) t'"
      if "0 \<le> k" and kn: "k < n" and inv: "?Inv k t" for k t
    proof -
      have st: "square n t" using inv by simp
      obtain t' where t': "forEach [Suc k..<n] (liftCell com k) t = Inr t'" "square n t'"
        "\<forall>r c. t' ! r ! c =
                 (if r = k \<and> k < c \<and> c < n then liftValue com k c
                  else if c = k \<and> k < r \<and> r < n then liftValue com k r
                  else t ! r ! c)"
        using lift_row [OF com kn st] by blast
      have "t' ! r ! c =
                 (if r < Suc k \<and> r < c \<and> c < n then liftValue com r c
                  else if c < Suc k \<and> c < r \<and> r < n then liftValue com c r
                  else zeros n ! r ! c)" for r c
        using t'(3) inv by (auto simp add: less_Suc_eq)
      then have "?Inv (Suc k) t'" using t'(2) by blast
      then show ?thesis using t'(1) by blast
    qed
  qed
  then show ?thesis by (auto simp add: zeros_nth)
qed

lemma calculateLiftMatrix_cells:
  assumes "square (length (category com)) (com_matrix com)"
  shows "\<exists>lm. calculateLiftMatrix com = Inr lm \<and> lm_category lm = category com
           \<and> square (length (category com)) (lm_matrix lm)
           \<and> (\<forall>r<length (category com). \<forall>c<length (category com). lm_matrix lm ! r ! c =
                 (if r < c then liftValue com r c else if c < r then liftValue com c r else 0))"
proof -
  obtain m' where m': "forEach [0..<length (category com)]
        (\<lambda>i. forEach [Suc i..<length (category com)] (liftCell com i))
        (zeros (length (category com))) = Inr m'"
      "square (length (category com)) m'"
      "\<forall>r<length (category com). \<forall>c<length (category com). m' ! r ! c =
                 (if r < c then liftValue com r c else if c < r then liftValue com c r else 0)"
    using lift_loops [OF assms] by blast
  have "calculateLiftMatrix com = Inr \<lparr> lm_category = category com, lm_matrix = m' \<rparr>"
    using m'(1) by (simp add: calculateLiftMatrix_def)
  then show ?thesis using m'(2,3) by simp
qed

text \<open>
  Claim C4, as the code has it. For an \<open>n\<close> by \<open>n\<close> co-order matrix over \<open>n\<close> categories,
  \<open>calculateLiftMatrix\<close> computes every pair \<open>i < j\<close> once, from the co-occurrence count
  right of the diagonal, and writes the value to both cells \<open>[i][j]\<close> and \<open>[j][i]\<close>: 0 when
  the order count of category \<open>i\<close> or of category \<open>j\<close> is absent from the map or 0, and
  \<open>(coOccurrence[i][j] * totalOrders) / (orderCount[i] * orderCount[j])\<close> otherwise. A count
  of 3 with 10 orders in total and category counts 5 and 4 gives the lift 1.5.
\<close>

theorem calculateLiftMatrix_spec:
  assumes "square (length (category com)) (com_matrix com)"
    and "i < j" and "j < length (category com)"
  shows "\<exists>lm. calculateLiftMatrix com = Inr lm \<and> lm_category lm = category com
           \<and> lm_matrix lm ! j ! i = lm_matrix lm ! i ! j
           \<and> (orderCounts com (category com ! i) = None
                \<or> orderCounts com (category com ! i) = Some 0
                \<or> orderCounts com (category com ! j) = None
                \<or> orderCounts com (category com ! j) = Some 0
                \<longrightarrow> lm_matrix lm ! i ! j = 0)
           \<and> (\<forall>a b. orderCounts com (category com ! i) = Some a
                    \<and> orderCounts com (category com ! j) = Some b \<and> a \<noteq> 0 \<and> b \<noteq> 0
                \<longrightarrow> lm_matrix lm ! i ! j = (com_matrix com ! i ! j * totalOrders com) / (a * b))"
proof -
  obtain lm where lm: "calculateLiftMatrix com = Inr lm" "lm_category lm = category com"
      "\<forall>r<length (category com). \<forall>c<length (category com). lm_matrix lm ! r ! c =
                 (if r < c then liftValue com r c else if c < r then liftValue com c r else 0)"
    using calculateLiftMatrix_cells [OF assms(1)] by blast
  have i: "i < length (category com)" using assms(2,3) by simp
  have up: "lm_matrix lm ! i ! j = liftValue com i j"
    using lm(3) i assms(2,3) by simp
  have low: "lm_matrix lm ! j ! i = liftValue com i j"
    using lm(3) i assms(2,3) by simp
  have zero: "liftValue com i j = 0"
    if "orderCounts com (category com ! i) = None
          \<or> orderCounts com (category com ! i) = Some 0
          \<or> orderCounts com (category com ! j) = None
          \<or> orderCounts com (category com ! j) = Some 0"
    using that by (auto simp add: liftValue_def getOr0_def)
  have val: "liftValue com i j = (com_matrix com ! i ! j * totalOrders com) / (a * b)"
    if "orderCounts com (category com ! i) = Some a
          \<and> orderCounts com (category com ! j) = Some b \<and> a \<noteq> 0 \<and> b \<noteq> 0" for a b
    using that by (simp add: liftValue_def getOr0_def)
  have sym: "lm_matrix lm ! j ! i = lm_matrix lm ! i ! j" using up low by simp
  have c1: "orderCounts com (category com ! i) = None
                \<or> orderCounts com (category com ! i) = Some 0
                \<or> orderCounts com (category com ! j) = None
                \<or> orderCounts com (category com ! j) = Some 0
                \<longrightarrow> lm_matrix lm ! i ! j = 0"
    using zero up by simp
  have c2: "\<forall>a b. orderCounts com (category com ! i) = Some a
                    \<and> orderCounts com (category com ! j) = Some b \<and> a \<noteq> 0 \<and> b \<noteq> 0
                \<longrightarrow> lm_matrix lm ! i ! j = (com_matrix com ! i ! j * totalOrders com) / (a * b)"
    using val up by simp
  show ?thesis by (intro exI [of _ lm] conjI lm(1) lm(2) sym c1 c2)
qed

theorem calculateLiftMatrix_spec_witness:
  "\<exists>lm. calculateLiftMatrix
           \<lparr> category = [''A'', ''B'', ''C'', ''D''],
             com_matrix = [[0, 3, 1, 2], [3, 0, 0, 0], [1, 0, 0, 0], [2, 0, 0, 0]],
             totalOrders = 10,
             orderCounts = [''A'' \<mapsto> 5, ''B'' \<mapsto> 4, ''D'' \<mapsto> 0] \<rparr> = Inr lm
        \<and> lm_matrix lm ! 0 ! 1 = 3 / 2 \<and> lm_matrix lm ! 1 ! 0 = 3 / 2
        \<and> lm_matrix lm ! 0 ! 2 = 0 \<and> lm_matrix lm ! 0 ! 3 = 0"
proof -
  let ?com = "\<lparr> category = [''A'', ''B'', ''C'', ''D''],
             com_matrix = [[0, 3, 1, 2], [3, 0, 0, 0], [1, 0, 0, 0], [2, 0, 0, 0]],
             totalOrders = 10,
             orderCounts = [''A'' \<mapsto> 5, ''B'' \<mapsto> 4, ''D'' \<mapsto> (0::real)] \<rparr>"
  have sq: "square (length (category ?com)) (com_matrix ?com)" by (simp add: square_def)
  have j1: "(1::nat) < length (category ?com)" and j2: "(2::nat) < length (category ?com)"
    and j3: "(3::nat) < length (category ?com)" by simp_all
  have i1: "(0::nat) < 1" and i2: "(0::nat) < 2" and i3: "(0::nat) < 3" by simp_all
  obtain lm where lm: "calculateLiftMatrix ?com = Inr lm"
    and s1: "lm_matrix lm ! 1 ! 0 = lm_matrix lm ! 0 ! 1"
    and v1: "\<forall>a b. orderCounts ?com (category ?com ! 0) = Some a
                    \<and> orderCounts ?com (category ?com ! 1) = Some b \<and> a \<noteq> 0 \<and> b \<noteq> 0
                \<longrightarrow> lm_matrix lm ! 0 ! 1 = (com_matrix ?com ! 0 ! 1 * totalOrders ?com) / (a * b)"
    using calculateLiftMatrix_spec [OF sq i1 j1] by (elim exE conjE) (erule that)
  have a: "lm_matrix lm ! 0 ! 1 = 3 / 2"
    using v1 [THEN spec, of 5, THEN spec, of 4] by simp
  obtain lm2 where lm2: "calculateLiftMatrix ?com = Inr lm2"
    and z2: "orderCounts ?com (category ?com ! 0) = None
                \<or> orderCounts ?com (category ?com ! 0) = Some 0
                \<or> orderCounts ?com (category ?com ! 2) = None
                \<or> orderCounts ?com (category ?com ! 2) = Some 0
                \<longrightarrow> lm_matrix lm2 ! 0 ! 2 = 0"
    using calculateLiftMatrix_spec [OF sq i2 j2] by (elim exE conjE) (erule that)
  obtain lm3 where lm3: "calculateLiftMatrix ?com = Inr lm3"
    and z3: "orderCounts ?com (category ?com ! 0) = None
                \<or> orderCounts ?com (category ?com ! 0) = Some 0
                \<or> orderCounts ?com (category ?com ! 3) = None
                \<or> orderCounts ?com (category ?com ! 3) = Some 0
                \<longrightarrow> lm_matrix lm3 ! 0 ! 3 = 0"
    using calculateLiftMatrix_spec [OF sq i3 j3] by (elim exE conjE) (erule that)
  have e2: "lm2 = lm" and e3: "lm3 = lm" using lm lm2 lm3 by simp_all
  have b: "lm_matrix lm ! 0 ! 2 = 0" using z2 e2 by simp
  have c: "lm_matrix lm ! 0 ! 3 = 0" using z3 e3 by simp
  have a': "lm_matrix lm ! 1 ! 0 = 3 / 2" using s1 a by simp
  show ?thesis by (intro exI [of _ lm] conjI lm a a' b c)
qed

text \<open>
  Claim C4 as stated fails below the diagonal of a matrix that is not symmetric: for the
  co-occurrence counts \<open>[[0, 3], [7, 0]]\<close> with 10 orders and the counts 5 and 4 the cell
  \<open>[1][0]\<close> of the lift matrix is \<open>3 * 10 / (5 * 4) = 1.5\<close>, where the formula of the claim
  reads \<open>coOccurrence[1][0]\<close> and gives \<open>7 * 10 / (4 * 5) = 3.5\<close>.
\<close>

theorem calculateLiftMatrix_asymmetric_counterexample:
  "calculateLiftMatrix
     \<lparr> category = [''A'', ''B''], com_matrix = [[0, 3], [7, 0]], totalOrders = 10,
       orderCounts = [''A'' \<mapsto> 5, ''B'' \<mapsto> 4] \<rparr>
     = Inr \<lparr> lm_category = [''A'', ''B''], lm_matrix = [[0, 3 / 2], [3 / 2, 0]] \<rparr>
   \<and> (com_matrix \<lparr> category = [''A'', ''B''], com_matrix = [[0, 3], [7, 0]], totalOrders = 10,
                    orderCounts = [''A'' \<mapsto> 5, ''B'' \<mapsto> (4::real)] \<rparr> ! 1 ! 0 * 10) / (4 * 5)
       \<noteq> (3 / 2 :: real)"
  by (simp add: calculateLiftMatrix_def liftCell_def rd_def wr_def zeros_def getOr0_def Let_def
      upt_rec [of 0] upt_rec [of 1] upt_rec [of 2] upt_rec [of "Suc 0"] numeral_2_eq_2)

subsection \<open>Percentiles\<close>

lemma elemAt_in_range: "0 \<le> k \<Longrightarrow> k < int (length xs) \<Longrightarrow> elemAt xs k = Some (xs ! nat k)"
  by (simp add: elemAt_def)

lemma rank_bounds:
  assumes "0 \<le> p" "p \<le> 100" "0 < n"
  shows "0 \<le> (p / 100) * real (n - 1)" "(p / 100) * real (n - 1) \<le> real (n - 1)"
proof -
  show "0 \<le> (p / 100) * real (n - 1)" using assms by simp
  have "(p / 100) * real (n - 1) \<le> 1 * real (n - 1)"
    by (rule mult_right_mono) (use assms in simp_all)
  then show "(p / 100) * real (n - 1) \<le> real (n - 1)" by simp
qed

lemma rank_floor_ceiling:
  assumes "0 \<le> t" "t \<le> real (n - 1)" "0 < n"
  shows "0 \<le> \<lfloor>t\<rfloor>" "\<lfloor>t\<rfloor> < int n" "0 \<le> \<lceil>t\<rceil>" "\<lceil>t\<rceil> < int n" "\<lfloor>t\<rfloor> \<le> \<lceil>t\<rceil>"
proof -
  show "0 \<le> \<lfloor>t\<rfloor>" using assms(1) by simp
  have "\<lceil>t\<rceil> \<le> int (n - 1)" using assms(2) by (simp add: ceiling_le_iff)
  then show c: "\<lceil>t\<rceil> < int n" using assms(3) by simp
  show f: "\<lfloor>t\<rfloor> \<le> \<lceil>t\<rceil>" by (rule floor_le_ceiling)
  show "\<lfloor>t\<rfloor> < int n" using c f by linarith
  show "0 \<le> \<lceil>t\<rceil>" using assms(1) by (simp add: ceiling_le_iff le_ceiling_iff)
qed

lemma calculatePercentile_in_range:
  assumes "values \<noteq> []" "0 \<le> p" "p \<le> 100"
  shows "calculatePercentile values p
           = Inr (interpolate (sort values) ((p / 100) * real (length values - 1)))"
proof -
  let ?t = "(p / 100) * real (length values - 1)"
  have n: "0 < length values" using assms(1) by simp
  have t: "0 \<le> ?t" "?t \<le> real (length values - 1)"
    using rank_bounds [OF assms(2,3) n] by simp_all
  have r: "0 \<le> \<lfloor>?t\<rfloor>" "\<lfloor>?t\<rfloor> < int (length values)"
      "0 \<le> \<lceil>?t\<rceil>" "\<lceil>?t\<rceil> < int (length values)"
    by (rule rank_floor_ceiling [OF t n])+
  have lo: "elemAt (sort values) \<lfloor>?t\<rfloor> = Some (sort values ! nat \<lfloor>?t\<rfloor>)"
    by (rule elemAt_in_range) (simp_all only: length_sort r)
  have hi: "elemAt (sort values) \<lceil>?t\<rceil> = Some (sort values ! nat \<lceil>?t\<rceil>)"
    by (rule elemAt_in_range) (simp_all only: length_sort r)
  show ?thesis
    using assms(1) lo hi by (simp add: calculatePercentile_def Let_def interpolate_def)
qed

lemma interpolate_between:
  assumes "sorted xs" "0 \<le> t" "t \<le> real (length xs - 1)" "0 < length xs"
  shows "xs ! nat \<lfloor>t\<rfloor> \<le> interpolate xs t" "interpolate xs t \<le> xs ! nat \<lceil>t\<rceil>"
proof -
  let ?a = "xs ! nat \<lfloor>t\<rfloor>" and ?b = "xs ! nat \<lceil>t\<rceil>"
  have r: "0 \<le> \<lfloor>t\<rfloor>" "\<lceil>t\<rceil> < int (length xs)" "\<lfloor>t\<rfloor> \<le> \<lceil>t\<rceil>"
    using rank_floor_ceiling [OF assms(2,3,4)] by simp_all
  have "nat \<lfloor>t\<rfloor> \<le> nat \<lceil>t\<rceil>" "nat \<lceil>t\<rceil> < length xs"
    using r by linarith+
  then have ab: "?a \<le> ?b"
    using assms(1) by (intro sorted_nth_mono)
  have f0: "0 \<le> t - of_int \<lfloor>t\<rfloor>" by simp
  have f1: "t - of_int \<lfloor>t\<rfloor> \<le> 1" by linarith
  have m0: "0 \<le> (t - of_int \<lfloor>t\<rfloor>) * (?b - ?a)" using f0 ab by simp
  have m1: "(t - of_int \<lfloor>t\<rfloor>) * (?b - ?a) \<le> 1 * (?b - ?a)"
    by (rule mult_right_mono) (use f1 ab in simp_all)
  show "?a \<le> interpolate xs t" using m0 by (simp add: interpolate_def)
  show "interpolate xs t \<le> ?b" using m1 ab by (simp add: interpolate_def)
qed

lemma interpolate_mono:
  assumes "sorted xs" "0 \<le> t" "t \<le> u" "u \<le> real (length xs - 1)" "0 < length xs"
  shows "interpolate xs t \<le> interpolate xs u"
proof (cases "\<lceil>t\<rceil> \<le> \<lfloor>u\<rfloor>")
  case True
  have tr: "t \<le> real (length xs - 1)" and u0: "0 \<le> u" using assms by simp_all
  have "interpolate xs t \<le> xs ! nat \<lceil>t\<rceil>"
    using interpolate_between(2) [OF assms(1,2) tr assms(5)] .
  also have "\<dots> \<le> xs ! nat \<lfloor>u\<rfloor>"
  proof (rule sorted_nth_mono [OF assms(1)])
    show "nat \<lceil>t\<rceil> \<le> nat \<lfloor>u\<rfloor>" using True by linarith
    show "nat \<lfloor>u\<rfloor> < length xs"
      using rank_floor_ceiling(1,2) [OF u0 assms(4,5)] by linarith
  qed
  also have "\<dots> \<le> interpolate xs u"
    using interpolate_between(1) [OF assms(1) u0 assms(4,5)] .
  finally show ?thesis .
next
  case False
  have fl: "\<lfloor>t\<rfloor> \<le> \<lfloor>u\<rfloor>" using assms(3) by (rule floor_mono)
  have ce: "\<lceil>t\<rceil> \<le> \<lceil>u\<rceil>" using assms(3) by (rule ceiling_mono)
  have t1: "\<lceil>t\<rceil> \<le> \<lfloor>t\<rfloor> + 1" by linarith
  have u1: "\<lceil>u\<rceil> \<le> \<lfloor>u\<rfloor> + 1" by linarith
  have same_floor: "\<lfloor>u\<rfloor> = \<lfloor>t\<rfloor>" using False fl t1 by linarith
  have ct: "\<lceil>t\<rceil> = \<lfloor>t\<rfloor> + 1" using False fl t1 by linarith
  have cu: "\<lceil>u\<rceil> = \<lfloor>t\<rfloor> + 1" using ct ce u1 same_floor by linarith
  let ?a = "xs ! nat \<lfloor>t\<rfloor>" and ?b = "xs ! nat (\<lfloor>t\<rfloor> + 1)"
  have u0: "0 \<le> u" using assms by simp
  have "\<lceil>u\<rceil> < int (length xs)" by (rule rank_floor_ceiling(4) [OF u0 assms(4,5)])
  moreover have "0 \<le> \<lfloor>t\<rfloor>" using assms(2) by simp
  ultimately have "nat \<lfloor>t\<rfloor> \<le> nat (\<lfloor>t\<rfloor> + 1)" "nat (\<lfloor>t\<rfloor> + 1) < length xs"
    using cu by linarith+
  then have ab: "?a \<le> ?b"
    using assms(1) by (intro sorted_nth_mono)
  have it: "interpolate xs t = ?a + (t - of_int \<lfloor>t\<rfloor>) * (?b - ?a)"
    using ct by (simp add: interpolate_def)
  have iu: "interpolate xs u = ?a + (u - of_int \<lfloor>t\<rfloor>) * (?b - ?a)"
    using cu same_floor by (simp add: interpolate_def)
  have "(t - of_int \<lfloor>t\<rfloor>) * (?b - ?a) \<le> (u - of_int \<lfloor>t\<rfloor>) * (?b - ?a)"
    by (rule mult_right_mono) (use assms(3) ab in simp_all)
  then show ?thesis using it iu by simp
qed

lemma calculatePercentile_mono:
  assumes "0 \<le> p" "p \<le> q" "q \<le> 100"
  shows "\<exists>a b. calculatePercentile values p = Inr a \<and> calculatePercentile values q = Inr b \<and> a \<le> b"
proof (cases "values = []")
  case True
  then show ?thesis by (simp add: calculatePercentile_def)
next
  case False
  let ?n = "length values"
  have n: "0 < length (sort values)" using False by simp
  have p100: "p \<le> 100" and q0: "0 \<le> q" using assms by simp_all
  have tu: "(p / 100) * real (?n - 1) \<le> (q / 100) * real (?n - 1)"
    by (rule mult_right_mono) (use assms in simp_all)
  have "interpolate (sort values) ((p / 100) * real (?n - 1))
          \<le> interpolate (sort values) ((q / 100) * real (?n - 1))"
  proof (rule interpolate_mono)
    show "sorted (sort values)" by simp
    show "0 \<le> (p / 100) * real (?n - 1)" using assms by simp
    show "(p / 100) * real (?n - 1) \<le> (q / 100) * real (?n - 1)" by (rule tu)
    show "(q / 100) * real (?n - 1) \<le> real (length (sort values) - 1)"
      using rank_bounds(2) [OF q0 assms(3), of ?n] False by simp
    show "0 < length (sort values)" by (rule n)
  qed
  then show ?thesis
    using calculatePercentile_in_range [OF False assms(1) p100]
      calculatePercentile_in_range [OF False q0 assms(3)] by simp
qed

subsection \<open>Normalization\<close>

lemma length_mapi: "length (mapi f xs) = length xs"
  by (simp add: mapi_def)

lemma nth_mapi: "i < length xs \<Longrightarrow> mapi f xs ! i = f (xs ! i) i"
  by (simp add: mapi_def nth_enumerate_eq)








lemma normalizeMatrixP5P95_given:
  "normalizeMatrixP5P95 m (Some b5) (Some b95)
     = Inr (mapi (\<lambda>row i. mapi (\<lambda>v j. if i = j then 0 else normalizeP5P95 v b5 b95) row) m, b5, b95)"
  by (simp add: normalizeMatrixP5P95_def orPercentile_def)

lemma normalized_cells:
  assumes "nm = mapi (\<lambda>row i. mapi (\<lambda>v j. if i = j then 0 else normalizeP5P95 v b5 b95) row) m"
  shows "length nm = length m"
    and "i < length m \<Longrightarrow> length (nm ! i) = length (m ! i)"
    and "i < length m \<Longrightarrow> j < length (m ! i) \<Longrightarrow>
           nm ! i ! j = (if i = j then 0 else normalizeP5P95 (m ! i ! j) b5 b95)"
  using assms by (simp_all add: length_mapi nth_mapi)




text \<open>
  The exception at work: for \<open>[[0, 2], [2, 0]]\<close> the sample is \<open>[2]\<close>, both bounds are 2, and
  every cell maps to 0.
\<close>

lemma normalizeMatrixP5P95_degenerate_example:
  "normalizeMatrixP5P95 [[0, 2], [2, 0]] None None = Inr ([[0, 0], [0, 0]], 2, 2)"
proof -
  have "extractMatrixValues [[0, 2], [2, 0]] = [2]"
    by (simp add: extractMatrixValues_def upt_rec [of 0] upt_rec [of 1] upt_rec [of 2]
        numeral_2_eq_2)
  moreover have "calculatePercentile [2] 5 = Inr 2" "calculatePercentile [2] 95 = Inr 2"
    by (simp_all add: calculatePercentile_def elemAt_def)
  ultimately show ?thesis
    by (simp add: normalizeMatrixP5P95_def orPercentile_def mapi_def normalizeP5P95_def)
qed

subsection \<open>Symmetry of the co-order matrix\<close>

lemma symmetric0_iff:
  "symmetric0 n m \<longleftrightarrow>
     square n m \<and> (\<forall>i<n. m ! i ! i = 0) \<and> (\<forall>i<n. \<forall>j<n. m ! i ! j = m ! j ! i)"
  by (auto simp add: symmetric0_def list_all_iff)

lemma symmetric0_zeros: "symmetric0 n (zeros n)"
  by (simp add: symmetric0_iff square_zeros zeros_nth)

lemma fold_invariant:
  assumes "Inv s" and "\<And>x t. x \<in> set xs \<Longrightarrow> Inv t \<Longrightarrow> Inv (f x t)"
  shows "Inv (fold f xs s)"
  using assms by (induction xs arbitrary: s) simp_all

lemma indexMap_fold:
  assumes "fold (\<lambda>(index, c) m. m(c \<mapsto> index)) (enumerate k ids) m0 c = Some i"
  shows "m0 c = Some i \<or> (k \<le> i \<and> i < k + length ids \<and> ids ! (i - k) = c)"
  using assms
proof (induction ids arbitrary: k m0)
  case Nil
  then show ?case by simp
next
  case (Cons a ids)
  from Cons.prems
  have "fold (\<lambda>(index, c) m. m(c \<mapsto> index)) (enumerate (Suc k) ids) (m0(a \<mapsto> k)) c = Some i"
    by (simp only: enumerate_simps fold_simps o_apply prod.case)
  from Cons.IH [OF this]
  consider "(m0(a \<mapsto> k)) c = Some i"
    | "Suc k \<le> i" "i < Suc k + length ids" "ids ! (i - Suc k) = c"
    by blast
  then show ?case
  proof cases
    case 1
    then show ?thesis by (cases "c = a") auto
  next
    case 2
    then have "(a # ids) ! (i - k) = c" by (simp add: nth_Cons')
    then show ?thesis using 2 by simp
  qed
qed

lemma indexMap_Some:
  assumes "indexMap ids c = Some i"
  shows "i < length ids" "ids ! i = c"
  using indexMap_fold [of 0 ids Map.empty c i] assms by (simp_all add: indexMap_def)

lemma distinct_uniq: "distinct (uniq xs)"
proof -
  have "distinct (fold (\<lambda>x acc. if x \<in> set acc then acc else acc @ [x]) xs acc)"
    if "distinct acc" for acc :: "'a list"
    using that by (induction xs arbitrary: acc) simp_all
  then show ?thesis by (simp add: uniq_def)
qed

lemma set_uniq: "set (uniq xs) = set xs"
proof -
  have "set (fold (\<lambda>x acc. if x \<in> set acc then acc else acc @ [x]) xs acc) = set acc \<union> set xs"
    for acc :: "'a list"
    by (induction xs arbitrary: acc) auto
  then show ?thesis by (simp add: uniq_def)
qed

lemma symmetric0_bump:
  assumes m: "symmetric0 n m" and a: "a < n" and b: "b < n" and ab: "a \<noteq> b"
  shows "symmetric0 n (wr (wr m a b (m ! a ! b + 1)) b a (wr m a b (m ! a ! b + 1) ! b ! a + 1))"
proof -
  let ?m1 = "wr m a b (m ! a ! b + 1)"
  let ?m2 = "wr ?m1 b a (?m1 ! b ! a + 1)"
  have sq: "square n m" using m by (simp add: symmetric0_iff)
  have sq1: "square n ?m1" using sq by (rule square_wr)
  have sq2: "square n ?m2" using sq1 by (rule square_wr)
  have c1: "?m1 ! r ! c = (if r = a \<and> c = b then m ! a ! b + 1 else m ! r ! c)" for r c
    by (rule wr_cell [OF sq a b])
  have c2: "?m2 ! r ! c = (if r = b \<and> c = a then ?m1 ! b ! a + 1 else ?m1 ! r ! c)" for r c
    by (rule wr_cell [OF sq1 b a])
  have sym: "m ! b ! a = m ! a ! b"
    using m a b by (simp add: symmetric0_iff)
  have cells: "?m2 ! r ! c =
      (if (r = a \<and> c = b) \<or> (r = b \<and> c = a) then m ! a ! b + 1 else m ! r ! c)" for r c
  proof -
    have "?m2 ! r ! c = (if r = b \<and> c = a then ?m1 ! b ! a + 1 else ?m1 ! r ! c)"
      by (rule c2)
    also have "\<dots> = (if r = b \<and> c = a then m ! a ! b + 1
                     else if r = a \<and> c = b then m ! a ! b + 1 else m ! r ! c)"
      using ab sym by (simp add: c1)
    finally show ?thesis by presburger
  qed
  have d: "?m2 ! i ! i = 0" if "i < n" for i
    using m ab that by (simp add: cells symmetric0_iff)
  have s: "?m2 ! i ! j = ?m2 ! j ! i" if "i < n" "j < n" for i j
    using m that by (auto simp add: cells symmetric0_iff)
  show ?thesis using sq2 d s by (simp add: symmetric0_iff)
qed

lemma symmetric0_countPair:
  assumes m: "symmetric0 (length ids) m" and d: "distinct cs"
    and ij: "i < j" "j < length cs"
  shows "symmetric0 (length ids) (countPair (indexMap ids) cs i j m)"
proof (cases "indexMap ids (cs ! i)")
  case None
  then show ?thesis using m by (simp add: countPair_def)
next
  case (Some a)
  note A = this
  show ?thesis
  proof (cases "indexMap ids (cs ! j)")
    case None
    then show ?thesis using m A by (simp add: countPair_def)
  next
    case (Some b)
    have a: "a < length ids" "ids ! a = cs ! i" using indexMap_Some [OF A] by simp_all
    have b: "b < length ids" "ids ! b = cs ! j" using indexMap_Some [OF Some] by simp_all
    have "cs ! i \<noteq> cs ! j" using d ij by (simp add: nth_eq_iff_index_eq)
    then have ab: "a \<noteq> b" using a(2) b(2) by auto
    show ?thesis
      using symmetric0_bump [OF m a(1) b(1) ab] A Some by (simp add: countPair_def Let_def)
  qed
qed

lemma symmetric0_countOrder:
  assumes "symmetric0 (length ids) (fst s)"
  shows "symmetric0 (length ids) (fst (countOrder (indexMap ids) ord s))"
proof -
  obtain m oc where s: "s = (m, oc)" by (cases s)
  let ?cs = "uniq (map categoryId (items ord))"
  have "symmetric0 (length ids)
          (fold (\<lambda>i. fold (\<lambda>j. countPair (indexMap ids) ?cs i j) [Suc i..<length ?cs])
             [0..<length ?cs] m)"
  proof (rule fold_invariant [where Inv = "symmetric0 (length ids)"])
    show "symmetric0 (length ids) m" using assms s by simp
    show "symmetric0 (length ids)
            (fold (\<lambda>j. countPair (indexMap ids) ?cs i j) [Suc i..<length ?cs] t)"
      if "i \<in> set [0..<length ?cs]" and t: "symmetric0 (length ids) t" for i t
    proof (rule fold_invariant [where Inv = "symmetric0 (length ids)"])
      show "symmetric0 (length ids) t" by (rule t)
      show "symmetric0 (length ids) (countPair (indexMap ids) ?cs i j u)"
        if "j \<in> set [Suc i..<length ?cs]" and "symmetric0 (length ids) u" for j u
        using that by (intro symmetric0_countPair distinct_uniq) simp_all
    qed
  qed
  then show ?thesis by (simp add: s countOrder_def Let_def)
qed

lemma calculateCoOrderMatrix_symmetric:
  "category (calculateCoOrderMatrix orders cats) = map cat_id cats"
  "symmetric0 (length cats) (com_matrix (calculateCoOrderMatrix orders cats))"
proof -
  let ?ids = "map cat_id cats"
  let ?s0 = "(zeros (length ?ids), fold (\<lambda>cat oc. oc(cat \<mapsto> 0)) ?ids Map.empty)"
  have inv: "symmetric0 (length ?ids) (fst (fold (countOrder (indexMap ?ids)) orders ?s0))"
  proof (rule fold_invariant [where Inv = "\<lambda>s. symmetric0 (length ?ids) (fst s)"])
    show "symmetric0 (length ?ids) (fst ?s0)" by (simp add: symmetric0_zeros)
    show "symmetric0 (length ?ids) (fst (countOrder (indexMap ?ids) x t))"
      if "symmetric0 (length ?ids) (fst t)" for x t
      using that by (rule symmetric0_countOrder)
  qed
  show "category (calculateCoOrderMatrix orders cats) = map cat_id cats"
    by (simp add: calculateCoOrderMatrix_def Let_def case_prod_beta)
  show "symmetric0 (length cats) (com_matrix (calculateCoOrderMatrix orders cats))"
    using inv by (simp add: calculateCoOrderMatrix_def Let_def case_prod_beta)
qed

subsection \<open>Symmetry along the pipeline\<close>

lemma symmetric0_square: "symmetric0 n m \<Longrightarrow> square n m"
  by (simp add: symmetric0_iff)

lemma calculateLiftMatrix_symmetric:
  assumes "square (length (category com)) (com_matrix com)"
  shows "\<exists>lm. calculateLiftMatrix com = Inr lm \<and> lm_category lm = category com
           \<and> symmetric0 (length (category com)) (lm_matrix lm)"
proof -
  obtain lm where lm: "calculateLiftMatrix com = Inr lm" "lm_category lm = category com"
      "square (length (category com)) (lm_matrix lm)"
      "\<forall>r<length (category com). \<forall>c<length (category com). lm_matrix lm ! r ! c =
                 (if r < c then liftValue com r c else if c < r then liftValue com c r else 0)"
    using calculateLiftMatrix_cells [OF assms] by blast
  have "symmetric0 (length (category com)) (lm_matrix lm)"
    using lm(3,4) by (auto simp add: symmetric0_iff)
  then show ?thesis using lm(1,2) by blast
qed

lemma getP5P95Bounds_defined: "\<exists>a b. getP5P95Bounds vs = Inr (a, b)"
proof -
  obtain a b where "calculatePercentile vs 5 = Inr a" "calculatePercentile vs 95 = Inr b"
    using calculatePercentile_mono [of 5 95 vs] by auto
  then show ?thesis by (simp add: getP5P95Bounds_def)
qed

lemma symmetric0_normalized:
  assumes "symmetric0 n m"
  shows "symmetric0 n
           (mapi (\<lambda>row i. mapi (\<lambda>v j. if i = j then 0 else normalizeP5P95 v b5 b95) row) m)"
proof -
  let ?nm = "mapi (\<lambda>row i. mapi (\<lambda>v j. if i = j then 0 else normalizeP5P95 v b5 b95) row) m"
  have sq: "length m = n" "\<And>i. i < n \<Longrightarrow> length (m ! i) = n"
    using assms by (simp_all add: symmetric0_iff square_length square_row)
  have len: "length ?nm = n" using sq(1) by (simp add: length_mapi)
  have rows: "length (?nm ! i) = n" if "i < n" for i
    using normalized_cells(2) [OF refl, of i m b5 b95] that sq by simp
  have cell: "?nm ! i ! j = (if i = j then 0 else normalizeP5P95 (m ! i ! j) b5 b95)"
    if "i < n" "j < n" for i j
    using normalized_cells(3) [OF refl, of i m j b5 b95] that sq by simp
  have "square n ?nm" using len rows by (simp add: square_def list_all_length)
  moreover have "?nm ! i ! i = 0" if "i < n" for i using cell [OF that that] by simp
  moreover have "?nm ! i ! j = ?nm ! j ! i" if "i < n" "j < n" for i j
  proof -
    have "m ! i ! j = m ! j ! i" using assms that by (simp add: symmetric0_iff)
    then show ?thesis using cell [OF that] cell [OF that(2,1)] by auto
  qed
  ultimately show ?thesis by (simp add: symmetric0_iff)
qed

lemma calculateCoAffinityMatrix_symmetric:
  assumes "symmetric0 (length (categories nl)) (nm_matrix nl)"
    and "symmetric0 (length (categories nl)) (nm_matrix nc)"
  shows "\<exists>ca. calculateCoAffinityMatrix nl nc = Inr ca
           \<and> ca_categories ca = categories nl
           \<and> symmetric0 (length (categories nl)) (ca_matrix ca)"
proof -
  let ?n = "length (categories nl)"
  obtain m' where m': "forEach [0..<?n] (\<lambda>i. forEach [0..<?n] (coAffinityCell nl nc i)) (zeros ?n)
        = Inr m'" "square ?n m'"
      "\<forall>r<?n. \<forall>c<?n. m' ! r ! c = coAffinityValue nl nc r c"
    using coAffinity_loops [OF symmetric0_square [OF assms(1)] symmetric0_square [OF assms(2)]]
    by blast
  have v: "coAffinityValue nl nc i j = coAffinityValue nl nc j i" if "i < ?n" "j < ?n" for i j
    using assms that by (simp add: coAffinityValue_def symmetric0_iff)
  have "symmetric0 ?n m'"
    using m'(2,3) v by (simp add: symmetric0_iff coAffinityValue_def)
  moreover have "calculateCoAffinityMatrix nl nc
          = Inr \<lparr> ca_categories = categories nl, ca_matrix = m' \<rparr>"
    using m'(1) by (simp add: calculateCoAffinityMatrix_def)
  ultimately show ?thesis by simp
qed

lemma buildCoAffinityFromOrders_symmetric:
  "\<exists>r. buildCoAffinityFromOrders orders cats = Inr r
       \<and> coOrdersMatrix r = calculateCoOrderMatrix orders cats
       \<and> calculateLiftMatrix (coOrdersMatrix r) = Inr (liftMatrix r)
       \<and> symmetric0 (length cats) (com_matrix (coOrdersMatrix r))
       \<and> symmetric0 (length cats) (lm_matrix (liftMatrix r))
       \<and> symmetric0 (length cats) (nm_matrix (normalizedLift r))
       \<and> symmetric0 (length cats) (nm_matrix (normalizedCoOrders r))
       \<and> symmetric0 (length cats) (ca_matrix (coAffinityMatrix r))"
proof -
  let ?n = "length cats"
  let ?com = "calculateCoOrderMatrix orders cats"
  have cat: "category ?com = map cat_id cats" and com: "symmetric0 ?n (com_matrix ?com)"
    by (rule calculateCoOrderMatrix_symmetric)+
  have n: "length (category ?com) = ?n" using cat by simp
  obtain lm where lm: "calculateLiftMatrix ?com = Inr lm" "lm_category lm = category ?com"
      "symmetric0 ?n (lm_matrix lm)"
    using calculateLiftMatrix_symmetric [of ?com] symmetric0_square [OF com] n by auto
  obtain l5 l95 where lb: "getLiftBounds lm = Inr (l5, l95)"
    using getP5P95Bounds_defined [of "extractMatrixValues (lm_matrix lm)"]
    by (auto simp add: getLiftBounds_def)
  obtain c5 c95 where cb: "getCoOrdersBounds ?com = Inr (c5, c95)"
    using getP5P95Bounds_defined [of "extractMatrixValues (com_matrix ?com)"]
    by (auto simp add: getCoOrdersBounds_def)
  let ?nl = "\<lparr> categories = lm_category lm,
               nm_matrix = mapi (\<lambda>row i. mapi (\<lambda>v j. if i = j then 0 else normalizeP5P95 v l5 l95) row)
                             (lm_matrix lm),
               p5 = l5, p95 = l95 \<rparr>"
  let ?nc = "\<lparr> categories = category ?com,
               nm_matrix = mapi (\<lambda>row i. mapi (\<lambda>v j. if i = j then 0 else normalizeP5P95 v c5 c95) row)
                             (com_matrix ?com),
               p5 = c5, p95 = c95 \<rparr>"
  have nl: "normalizeLiftMatrix lm (Some l5) (Some l95) = Inr ?nl"
    by (simp add: normalizeLiftMatrix_def normalizeMatrixP5P95_given)
  have nc: "normalizeCoOrdersMatrix ?com (Some c5) (Some c95) = Inr ?nc"
    by (simp add: normalizeCoOrdersMatrix_def normalizeMatrixP5P95_given)
  have nls: "symmetric0 ?n (nm_matrix ?nl)" using symmetric0_normalized [OF lm(3)] by simp
  have ncs: "symmetric0 ?n (nm_matrix ?nc)" using symmetric0_normalized [OF com] by simp
  have nn: "length (categories ?nl) = ?n" using lm(2) n by simp
  obtain ca where ca: "calculateCoAffinityMatrix ?nl ?nc = Inr ca"
      "symmetric0 ?n (ca_matrix ca)"
    using calculateCoAffinityMatrix_symmetric [of ?nl ?nc] nls ncs nn by auto
  let ?r = "\<lparr> coOrdersMatrix = ?com, liftMatrix = lm, normalizedLift = ?nl,
                normalizedCoOrders = ?nc, coAffinityMatrix = ca,
                stats = \<lparr> liftP5 = l5, liftP95 = l95, coOrdersP5 = c5, coOrdersP95 = c95,
                          ms_totalOrders = totalOrders ?com,
                          categoryOrderCounts = orderCounts ?com \<rparr> \<rparr>"
  have "buildCoAffinityFromOrders orders cats = Inr ?r"
    by (simp add: buildCoAffinityFromOrders_def Let_def lm(1) lb cb nl nc ca(1))
  moreover have "coOrdersMatrix ?r = ?com" by simp
  moreover have "calculateLiftMatrix (coOrdersMatrix ?r) = Inr (liftMatrix ?r)"
    using lm(1) by simp
  moreover have "symmetric0 ?n (com_matrix (coOrdersMatrix ?r))" using com by simp
  moreover have "symmetric0 ?n (lm_matrix (liftMatrix ?r))" using lm(3) by simp
  moreover have "symmetric0 ?n (nm_matrix (normalizedLift ?r))" using nls by simp
  moreover have "symmetric0 ?n (nm_matrix (normalizedCoOrders ?r))" using ncs by simp
  moreover have "symmetric0 ?n (ca_matrix (coAffinityMatrix ?r))" using ca(2) by simp
  ultimately show ?thesis by blast
qed

lemma calculateCoOrderMatrix_example:
  "com_matrix (calculateCoOrderMatrix
      [\<lparr> order_id = ''o1'', customerId = ''c1'',
          items = [\<lparr> categoryId = ''A'', quantity = 1, price = 5 \<rparr>,
                   \<lparr> categoryId = ''B'', quantity = 2, price = 3 \<rparr>,
                   \<lparr> categoryId = ''A'', quantity = 1, price = 5 \<rparr>],
          createdAt = 10, total = 16 \<rparr>,
       \<lparr> order_id = ''o2'', customerId = ''c2'',
          items = [\<lparr> categoryId = ''B'', quantity = 1, price = 3 \<rparr>,
                   \<lparr> categoryId = ''X'', quantity = 1, price = 1 \<rparr>,
                   \<lparr> categoryId = ''A'', quantity = 1, price = 5 \<rparr>],
          createdAt = 20, total = 9 \<rparr>,
       \<lparr> order_id = ''o3'', customerId = ''c1'',
          items = [\<lparr> categoryId = ''C'', quantity = 1, price = 5 \<rparr>],
          createdAt = 30, total = 5 \<rparr>]
      [\<lparr> cat_id = ''A'', cat_name = ''a'', popularity = 1 \<rparr>,
       \<lparr> cat_id = ''B'', cat_name = ''b'', popularity = 1 \<rparr>,
       \<lparr> cat_id = ''C'', cat_name = ''c'', popularity = 1 \<rparr>])
     = [[0, 2, 0], [2, 0, 0], [0, 0, 0]]"
  by (simp add: calculateCoOrderMatrix_def countOrder_def countPair_def countCategory_def
      indexMap_def uniq_def zeros_def wr_def Let_def upt_rec [of 0] upt_rec [of 1]
      upt_rec [of 2] upt_rec [of 3] upt_rec [of "Suc 0"] numeral_2_eq_2 numeral_3_eq_3)

text \<open>
  Claim C9. For every order list and category list the pipeline returns, and the co-order
  matrix of \<open>calculateCoOrderMatrix\<close>, the lift matrix, the two normalized matrices and
  the CoAffinity matrix built from it are all matrices over the categories with
  \<open>M[i][j] = M[j][i]\<close> for all indices and \<open>M[i][i] = 0\<close>.
\<close>

theorem pipeline_matrices_symmetric:
  "\<exists>r. buildCoAffinityFromOrders orders cats = Inr r
       \<and> coOrdersMatrix r = calculateCoOrderMatrix orders cats
       \<and> calculateLiftMatrix (calculateCoOrderMatrix orders cats) = Inr (liftMatrix r)
       \<and> (\<forall>M \<in> {com_matrix (coOrdersMatrix r), lm_matrix (liftMatrix r),
                  nm_matrix (normalizedLift r), nm_matrix (normalizedCoOrders r),
                  ca_matrix (coAffinityMatrix r)}.
             square (length cats) M
             \<and> (\<forall>i<length cats. \<forall>j<length cats. M ! i ! j = M ! j ! i)
             \<and> (\<forall>i<length cats. M ! i ! i = 0))"
proof -
  obtain r where r: "buildCoAffinityFromOrders orders cats = Inr r"
      "coOrdersMatrix r = calculateCoOrderMatrix orders cats"
      "calculateLiftMatrix (coOrdersMatrix r) = Inr (liftMatrix r)"
      "symmetric0 (length cats) (com_matrix (coOrdersMatrix r))"
      "symmetric0 (length cats) (lm_matrix (liftMatrix r))"
      "symmetric0 (length cats) (nm_matrix (normalizedLift r))"
      "symmetric0 (length cats) (nm_matrix (normalizedCoOrders r))"
      "symmetric0 (length cats) (ca_matrix (coAffinityMatrix r))"
    using buildCoAffinityFromOrders_symmetric [of orders cats] by (elim exE conjE) (erule that)
  have s: "square (length cats) M
             \<and> (\<forall>i<length cats. \<forall>j<length cats. M ! i ! j = M ! j ! i)
             \<and> (\<forall>i<length cats. M ! i ! i = 0)" if "symmetric0 (length cats) M" for M
    using that by (simp add: symmetric0_iff)
  have all: "\<forall>M \<in> {com_matrix (coOrdersMatrix r), lm_matrix (liftMatrix r),
                  nm_matrix (normalizedLift r), nm_matrix (normalizedCoOrders r),
                  ca_matrix (coAffinityMatrix r)}.
             square (length cats) M
             \<and> (\<forall>i<length cats. \<forall>j<length cats. M ! i ! j = M ! j ! i)
             \<and> (\<forall>i<length cats. M ! i ! i = 0)"
  proof (rule ballI)
    fix M
    assume "M \<in> {com_matrix (coOrdersMatrix r), lm_matrix (liftMatrix r),
                  nm_matrix (normalizedLift r), nm_matrix (normalizedCoOrders r),
                  ca_matrix (coAffinityMatrix r)}"
    then have "symmetric0 (length cats) M" using r(4-8) by auto
    then show "square (length cats) M
             \<and> (\<forall>i<length cats. \<forall>j<length cats. M ! i ! j = M ! j ! i)
             \<and> (\<forall>i<length cats. M ! i ! i = 0)" by (rule s)
  qed
  have lift: "calculateLiftMatrix (calculateCoOrderMatrix orders cats) = Inr (liftMatrix r)"
    using r(2,3) by simp
  show ?thesis by (intro exI [of _ r] conjI r(1) r(2) lift all)
qed

theorem pipeline_matrices_symmetric_witness:
  "\<exists>r. buildCoAffinityFromOrders
      [\<lparr> order_id = ''o1'', customerId = ''c1'',
          items = [\<lparr> categoryId = ''A'', quantity = 1, price = 5 \<rparr>,
                   \<lparr> categoryId = ''B'', quantity = 2, price = 3 \<rparr>,
                   \<lparr> categoryId = ''A'', quantity = 1, price = 5 \<rparr>],
          createdAt = 10, total = 16 \<rparr>,
       \<lparr> order_id = ''o2'', customerId = ''c2'',
          items = [\<lparr> categoryId = ''B'', quantity = 1, price = 3 \<rparr>,
                   \<lparr> categoryId = ''X'', quantity = 1, price = 1 \<rparr>,
                   \<lparr> categoryId = ''A'', quantity = 1, price = 5 \<rparr>],
          createdAt = 20, total = 9 \<rparr>,
       \<lparr> order_id = ''o3'', customerId = ''c1'',
          items = [\<lparr> categoryId = ''C'', quantity = 1, price = 5 \<rparr>],
          createdAt = 30, total = 5 \<rparr>]
      [\<lparr> cat_id = ''A'', cat_name = ''a'', popularity = 1 \<rparr>,
       \<lparr> cat_id = ''B'', cat_name = ''b'', popularity = 1 \<rparr>,
       \<lparr> cat_id = ''C'', cat_name = ''c'', popularity = 1 \<rparr>] = Inr r
     \<and> com_matrix (coOrdersMatrix r) = [[0, 2, 0], [2, 0, 0], [0, 0, 0]]
     \<and> lm_matrix (liftMatrix r) ! 0 ! 1 = lm_matrix (liftMatrix r) ! 1 ! 0
     \<and> ca_matrix (coAffinityMatrix r) ! 0 ! 1 = ca_matrix (coAffinityMatrix r) ! 1 ! 0
     \<and> ca_matrix (coAffinityMatrix r) ! 2 ! 2 = 0"
proof -
  let ?orders = "[\<lparr> order_id = ''o1'', customerId = ''c1'',
          items = [\<lparr> categoryId = ''A'', quantity = 1, price = 5 \<rparr>,
                   \<lparr> categoryId = ''B'', quantity = 2, price = 3 \<rparr>,
                   \<lparr> categoryId = ''A'', quantity = 1, price = 5 \<rparr>],
          createdAt = 10, total = 16 \<rparr>,
       \<lparr> order_id = ''o2'', customerId = ''c2'',
          items = [\<lparr> categoryId = ''B'', quantity = 1, price = 3 \<rparr>,
                   \<lparr> categoryId = ''X'', quantity = 1, price = 1 \<rparr>,
                   \<lparr> categoryId = ''A'', quantity = 1, price = 5 \<rparr>],
          createdAt = 20, total = 9 \<rparr>,
       \<lparr> order_id = ''o3'', customerId = ''c1'',
          items = [\<lparr> categoryId = ''C'', quantity = 1, price = 5 \<rparr>],
          createdAt = 30, total = 5 \<rparr>]"
  let ?cats = "[\<lparr> cat_id = ''A'', cat_name = ''a'', popularity = 1 \<rparr>,
       \<lparr> cat_id = ''B'', cat_name = ''b'', popularity = 1 \<rparr>,
       \<lparr> cat_id = ''C'', cat_name = ''c'', popularity = (1::real) \<rparr>]"
  obtain r where r: "buildCoAffinityFromOrders ?orders ?cats = Inr r"
    and com: "coOrdersMatrix r = calculateCoOrderMatrix ?orders ?cats"
    and all: "\<forall>M \<in> {com_matrix (coOrdersMatrix r), lm_matrix (liftMatrix r),
                  nm_matrix (normalizedLift r), nm_matrix (normalizedCoOrders r),
                  ca_matrix (coAffinityMatrix r)}.
             square (length ?cats) M
             \<and> (\<forall>i<length ?cats. \<forall>j<length ?cats. M ! i ! j = M ! j ! i)
             \<and> (\<forall>i<length ?cats. M ! i ! i = 0)"
    using pipeline_matrices_symmetric [of ?orders ?cats] by (elim exE conjE) (erule that)
  have i0: "(0::nat) < length ?cats" and i1: "(1::nat) < length ?cats"
    and i2: "(2::nat) < length ?cats" by simp_all
  have "lm_matrix (liftMatrix r) \<in> {com_matrix (coOrdersMatrix r), lm_matrix (liftMatrix r),
                  nm_matrix (normalizedLift r), nm_matrix (normalizedCoOrders r),
                  ca_matrix (coAffinityMatrix r)}" by simp
  note lm = all [THEN bspec, OF this]
  have "ca_matrix (coAffinityMatrix r) \<in> {com_matrix (coOrdersMatrix r), lm_matrix (liftMatrix r),
                  nm_matrix (normalizedLift r), nm_matrix (normalizedCoOrders r),
                  ca_matrix (coAffinityMatrix r)}" by simp
  note ca = all [THEN bspec, OF this]
  have a: "lm_matrix (liftMatrix r) ! 0 ! 1 = lm_matrix (liftMatrix r) ! 1 ! 0"
    by (rule lm [THEN conjunct2, THEN conjunct1, THEN spec, THEN mp, OF i0, THEN spec, THEN mp, OF i1])
  have b: "ca_matrix (coAffinityMatrix r) ! 0 ! 1 = ca_matrix (coAffinityMatrix r) ! 1 ! 0"
    by (rule ca [THEN conjunct2, THEN conjunct1, THEN spec, THEN mp, OF i0, THEN spec, THEN mp, OF i1])
  have c: "ca_matrix (coAffinityMatrix r) ! 2 ! 2 = 0"
    by (rule ca [THEN conjunct2, THEN conjunct2, THEN spec, THEN mp, OF i2])
  have d: "com_matrix (coOrdersMatrix r) = [[0, 2, 0], [2, 0, 0], [0, 0, 0]]"
    by (simp only: com calculateCoOrderMatrix_example)
  show ?thesis by (intro exI [of _ r] conjI r d a b c)
qed

subsection \<open>The batch run\<close>

lemma getCoAffinity_defined:
  assumes "square (length (ca_categories M)) (ca_matrix M)"
  shows "\<exists>v. getCoAffinity M (createCategoryIndexMap M) c1 c2 = Inr v"
proof (cases "indexMap (ca_categories M) c1")
  case None
  then show ?thesis
    by (simp add: getCoAffinity_def createCategoryIndexMap_def buildCategoryIndexMap_def)
next
  case (Some i)
  note I = this
  show ?thesis
  proof (cases "indexMap (ca_categories M) c2")
    case None
    then show ?thesis
      using I by (simp add: getCoAffinity_def createCategoryIndexMap_def buildCategoryIndexMap_def)
  next
    case (Some j)
    have "rd (ca_matrix M) i j = Inr (Some (ca_matrix M ! i ! j))"
      using assms indexMap_Some(1) [OF I] indexMap_Some(1) [OF Some] by (rule rd_square)
    then show ?thesis
      using I Some
      by (simp add: getCoAffinity_def createCategoryIndexMap_def buildCategoryIndexMap_def)
  qed
qed

lemma mapE_defined:
  assumes "\<And>x. x \<in> set xs \<Longrightarrow> \<exists>y. f x = Inr y"
  shows "\<exists>ys. mapE f xs = Inr ys"
  using assms
proof (induction xs)
  case Nil
  show ?case by simp
next
  case (Cons x xs)
  obtain y where y: "f x = Inr y" using Cons.prems [of x] by auto
  obtain ys where ys: "mapE f xs = Inr ys" using Cons.IH Cons.prems by auto
  show ?case using y ys by simp
qed

lemma calculateCustomerAffinity_defined:
  assumes "square (length (ca_categories M)) (ca_matrix M)"
  shows "\<exists>res. calculateCustomerAffinity h g M (createCategoryIndexMap M) = Inr res
           \<and> car_customerId res = cph_customerId h \<and> car_goalCategory res = g
           \<and> affinity res = calculateFinalAffinity (maxWeightedSignal res)
           \<and> maxWeightedSignal res = calculateRawSignal (car_weightedSignals res)"
proof -
  have "\<exists>ws. calculateWeightedSignals (calculateAllSeedWeights h) g M (createCategoryIndexMap M)
          = Inr ws"
    unfolding calculateWeightedSignals_def
  proof (rule mapE_defined)
    fix sw
    obtain v where "getCoAffinity M (createCategoryIndexMap M) (sw_categoryId sw) g = Inr v"
      using getCoAffinity_defined [OF assms] by blast
    then show "\<exists>y. (case getCoAffinity M (createCategoryIndexMap M) (sw_categoryId sw) g of
                  Inl e \<Rightarrow> Inl e
                | Inr coAffinity \<Rightarrow>
                    Inr \<lparr> ws_categoryId = sw_categoryId sw, signal = coAffinity * seedWeight sw \<rparr>)
              = Inr y" by simp
  qed
  then obtain ws where
    "calculateWeightedSignals (calculateAllSeedWeights h) g M (createCategoryIndexMap M) = Inr ws"
    by blast
  then show ?thesis by (simp add: calculateCustomerAffinity_def Let_def)
qed

lemma buildCustomerPurchaseHistory_customerId:
  "buildCustomerPurchaseHistory cid orders = Some h \<Longrightarrow> cph_customerId h = cid"
  by (auto simp add: buildCustomerPurchaseHistory_def Let_def split: list.splits)

lemma buildCustomerPurchaseHistory_None:
  "buildCustomerPurchaseHistory cid orders = None
     \<longleftrightarrow> filter (\<lambda>x. customerId x = cid) orders = []"
proof -
  let ?xs = "filter (\<lambda>x. customerId x = cid) orders"
  have "sort_key (\<lambda>x. - createdAt x) ?xs = [] \<longleftrightarrow> ?xs = []"
    using length_sort [of "\<lambda>x. - createdAt x" ?xs] by (metis length_0_conv)
  then have eq: "sort_key (\<lambda>x. - createdAt x) ?xs \<noteq> [] \<longleftrightarrow> ?xs \<noteq> []" by simp
  show ?thesis
  proof (cases "sort_key (\<lambda>x. - createdAt x) ?xs")
    case Nil
    then show ?thesis using eq by (simp add: buildCustomerPurchaseHistory_def)
  next
    case (Cons a as)
    then have "?xs \<noteq> []" using eq by simp
    then show ?thesis using Cons by (simp add: buildCustomerPurchaseHistory_def Let_def)
  qed
qed

lemma skipReason_None_iff:
  "skipReason tz orders g d r cid = None
     \<longleftrightarrow> (\<exists>h. buildCustomerPurchaseHistory cid orders = Some h \<and> isCustomerEligible tz h g d r)"
  by (auto simp add: skipReason_def isCustomerEligible_iff split: option.splits)

lemma processCustomer_skip:
  assumes "skipReason tz orders g d r (cust_id c) = Some why"
  shows "processCustomer tz orders M idx g d r c (rs, sk)
           = Inr (rs, sk @ [\<lparr> sk_customerId = cust_id c, reason = why \<rparr>])"
  using assms
  by (auto simp add: processCustomer_def skipReason_def isCustomerEligible_iff Let_def
      split: option.splits if_splits)

lemma processCustomer_score:
  assumes "square (length (ca_categories M)) (ca_matrix M)"
    and "skipReason tz orders g d r (cust_id c) = None"
  shows "\<exists>res. processCustomer tz orders M (createCategoryIndexMap M) g d r c (rs, sk)
                 = Inr (rs @ [res], sk)
           \<and> car_customerId res = cust_id c"
proof -
  obtain h where h: "buildCustomerPurchaseHistory (cust_id c) orders = Some h"
      "isCustomerEligible tz h g d r"
    using assms(2) by (auto simp add: skipReason_None_iff)
  obtain res where res: "calculateCustomerAffinity h g M (createCategoryIndexMap M) = Inr res"
      "car_customerId res = cph_customerId h"
    using calculateCustomerAffinity_defined [OF assms(1)] by blast
  have "car_customerId res = cust_id c"
    using res(2) buildCustomerPurchaseHistory_customerId [OF h(1)] by simp
  then show ?thesis using h res(1) by (simp add: processCustomer_def)
qed

lemma skipRecords_Cons:
  "skipRecords tz orders g d r (c # cs) =
     (case skipReason tz orders g d r (cust_id c) of
        None \<Rightarrow> skipRecords tz orders g d r cs
      | Some why \<Rightarrow> \<lparr> sk_customerId = cust_id c, reason = why \<rparr> # skipRecords tz orders g d r cs)"
  by (simp add: skipRecords_def List.map_filter_simps split: option.splits)

lemma processLoop:
  assumes "square (length (ca_categories M)) (ca_matrix M)"
  shows "\<exists>rs'. forEach customers (processCustomer tz orders M (createCategoryIndexMap M) g d r) (rs, sk)
                 = Inr (rs @ rs', sk @ skipRecords tz orders g d r customers)
           \<and> map car_customerId rs'
               = map cust_id (filter (\<lambda>c. skipReason tz orders g d r (cust_id c) = None) customers)"
proof (induction customers arbitrary: rs sk)
  case Nil
  show ?case by (simp add: skipRecords_def List.map_filter_simps)
next
  case (Cons c cs)
  show ?case
  proof (cases "skipReason tz orders g d r (cust_id c)")
    case None
    obtain res where res:
        "processCustomer tz orders M (createCategoryIndexMap M) g d r c (rs, sk) = Inr (rs @ [res], sk)"
        "car_customerId res = cust_id c"
      using processCustomer_score [OF assms None] by blast
    obtain rs' where rs':
        "forEach cs (processCustomer tz orders M (createCategoryIndexMap M) g d r) (rs @ [res], sk)
           = Inr ((rs @ [res]) @ rs', sk @ skipRecords tz orders g d r cs)"
        "map car_customerId rs'
           = map cust_id (filter (\<lambda>c. skipReason tz orders g d r (cust_id c) = None) cs)"
      using Cons.IH [of "rs @ [res]" sk] by blast
    have "forEach (c # cs) (processCustomer tz orders M (createCategoryIndexMap M) g d r) (rs, sk)
            = Inr (rs @ (res # rs'), sk @ skipRecords tz orders g d r (c # cs))"
      using res(1) rs'(1) None by (simp add: skipRecords_Cons)
    moreover have "map car_customerId (res # rs')
           = map cust_id (filter (\<lambda>c. skipReason tz orders g d r (cust_id c) = None) (c # cs))"
      using res(2) rs'(2) None by simp
    ultimately show ?thesis by blast
  next
    case (Some why)
    let ?rec = "\<lparr> sk_customerId = cust_id c, reason = why \<rparr>"
    obtain rs' where rs':
        "forEach cs (processCustomer tz orders M (createCategoryIndexMap M) g d r) (rs, sk @ [?rec])
           = Inr (rs @ rs', (sk @ [?rec]) @ skipRecords tz orders g d r cs)"
        "map car_customerId rs'
           = map cust_id (filter (\<lambda>c. skipReason tz orders g d r (cust_id c) = None) cs)"
      using Cons.IH [of rs "sk @ [?rec]"] by blast
    have "forEach (c # cs) (processCustomer tz orders M (createCategoryIndexMap M) g d r) (rs, sk)
            = Inr (rs @ rs', sk @ skipRecords tz orders g d r (c # cs))"
      using processCustomer_skip [OF Some] rs'(1) Some by (simp add: skipRecords_Cons)
    moreover have "map car_customerId rs'
           = map cust_id (filter (\<lambda>c. skipReason tz orders g d r (cust_id c) = None) (c # cs))"
      using rs'(2) Some by simp
    ultimately show ?thesis by blast
  qed
qed

lemma processAllCustomers_valid:
  assumes "g \<in> set (ca_categories M)" and "square (length (ca_categories M)) (ca_matrix M)"
  shows "\<exists>results. processAllCustomers tz customers orders M g d r
                      = Inr (results, skipRecords tz orders g d r customers)
           \<and> map car_customerId results
               = map cust_id (filter (\<lambda>c. skipReason tz orders g d r (cust_id c) = None) customers)"
  using processLoop [OF assms(2), of customers tz orders g d r "[]" "[]"] assms(1)
  by (simp add: processAllCustomers_def Let_def)

lemma processAllCustomers_invalid:
  assumes "g \<notin> set (ca_categories M)"
  shows "processAllCustomers tz customers orders M g d r
           = Inl (Error (goalNotFound g (ca_categories M)))"
  using assms by (simp add: processAllCustomers_def Let_def)

lemma example_skipRecords:
  "skipRecords utc exampleOrders ''B'' 90 (100 * msPerDay) exampleCustomers
     = [\<lparr> sk_customerId = ''c1'', reason = ''Not active in window'' \<rparr>,
        \<lparr> sk_customerId = ''c2'', reason = ''Already purchased goal category'' \<rparr>,
        \<lparr> sk_customerId = ''c4'', reason = ''No orders'' \<rparr>]"
  by (simp add: skipRecords_def skipReason_def buildCustomerPurchaseHistory_def
      recordPurchase_def uniq_def has_def Let_def msPerDay_def exampleOrders_def
      exampleCustomers_def activeInWindow_def daysBefore_def UTC_def LocalTime_def utc_def
      maxTime_def)

lemma example_scored:
  "map cust_id (filter (\<lambda>c. skipReason utc exampleOrders ''B'' 90 (100 * msPerDay) (cust_id c) = None)
                  exampleCustomers) = [''c3'']"
  by (simp add: skipReason_def buildCustomerPurchaseHistory_def
      recordPurchase_def uniq_def has_def Let_def msPerDay_def exampleOrders_def
      exampleCustomers_def activeInWindow_def daysBefore_def UTC_def LocalTime_def utc_def
      maxTime_def)

lemma example_history:
  "buildCustomerPurchaseHistory ''c2'' exampleOrders
     = Some \<lparr> cph_customerId = ''c2'',
              cph_categories = [(''B'', \<lparr> cpi_categoryId = ''B'', frequency = 1,
                                          lastPurchaseDate = 0, isLastOrder = True \<rparr>)],
              lastOrderDate = 0, cph_totalOrders = 1 \<rparr>"
  by (simp add: buildCustomerPurchaseHistory_def recordPurchase_def uniq_def Let_def
      exampleOrders_def)

lemma example_matrix_square:
  "square (length (ca_categories exampleMatrix)) (ca_matrix exampleMatrix)"
  by (simp add: exampleMatrix_def square_def)

lemma skipRecords_member:
  "\<lparr> sk_customerId = i, reason = w \<rparr> \<in> set (skipRecords tz orders g d r cs)
     \<longleftrightarrow> (\<exists>c \<in> set cs. cust_id c = i \<and> skipReason tz orders g d r i = Some w)"
  by (induction cs) (auto simp add: skipRecords_Cons skipRecords_def split: option.splits)

lemma skipRecords_length:
  "length (skipRecords tz orders g d r cs)
     + length (filter (\<lambda>c. skipReason tz orders g d r (cust_id c) = None) cs) = length cs"
  by (induction cs) (auto simp add: skipRecords_Cons skipRecords_def split: option.splits)

lemma goalNotFound_names:
  "\<exists>pre mid. goalNotFound g cats = pre @ g @ mid @ joinWith '', '' cats"
proof -
  have "goalNotFound g cats
          = (''Goal category '' @ [CHR 0x22]) @ g
            @ ([CHR 0x22] @ '' not found. '' @ ''Available categories: '') @ joinWith '', '' cats"
    by (simp add: goalNotFound_def)
  then show ?thesis by blast
qed

text \<open>
  Claim C8. When the goal category is not among the categories of the CoAffinity matrix,
  \<open>processAllCustomers\<close> throws an error whose message names the goal category and lists
  the categories of the matrix, whatever the customers and orders are (the check stands
  before the loop, so no result and no skip record is returned). When the goal category is
  valid, the run returns: the customers without orders, with the goal category already
  purchased or not active in the window are recorded with their reason, in order, the
  others are scored, in order, and every customer is one or the other.
\<close>

theorem processAllCustomers_spec:
  "(g \<notin> set (ca_categories M) \<longrightarrow>
      processAllCustomers tz customers orders M g d r
        = Inl (Error (goalNotFound g (ca_categories M)))
      \<and> (\<exists>pre mid. goalNotFound g (ca_categories M)
                      = pre @ g @ mid @ joinWith '', '' (ca_categories M)))
   \<and> (g \<in> set (ca_categories M) \<and> square (length (ca_categories M)) (ca_matrix M) \<longrightarrow>
        (\<exists>results skipped.
            processAllCustomers tz customers orders M g d r = Inr (results, skipped)
          \<and> skipped = skipRecords tz orders g d r customers
          \<and> map car_customerId results
              = map cust_id (filter (\<lambda>c. skipReason tz orders g d r (cust_id c) = None) customers)
          \<and> length results + length skipped = length customers))"
proof (intro conjI impI)
  assume "g \<notin> set (ca_categories M)"
  then show "processAllCustomers tz customers orders M g d r
        = Inl (Error (goalNotFound g (ca_categories M)))"
    by (rule processAllCustomers_invalid)
  show "\<exists>pre mid. goalNotFound g (ca_categories M)
                      = pre @ g @ mid @ joinWith '', '' (ca_categories M)"
    by (rule goalNotFound_names)
next
  assume a: "g \<in> set (ca_categories M) \<and> square (length (ca_categories M)) (ca_matrix M)"
  obtain results where res:
      "processAllCustomers tz customers orders M g d r
         = Inr (results, skipRecords tz orders g d r customers)"
      "map car_customerId results
         = map cust_id (filter (\<lambda>c. skipReason tz orders g d r (cust_id c) = None) customers)"
    using processAllCustomers_valid [of g M tz customers orders d r] a by blast
  have "length results
          = length (filter (\<lambda>c. skipReason tz orders g d r (cust_id c) = None) customers)"
    using res(2) by (metis length_map)
  then have len: "length results + length (skipRecords tz orders g d r customers) = length customers"
    using skipRecords_length [of tz orders g d r customers] by simp
  show "\<exists>results skipped.
            processAllCustomers tz customers orders M g d r = Inr (results, skipped)
          \<and> skipped = skipRecords tz orders g d r customers
          \<and> map car_customerId results
              = map cust_id (filter (\<lambda>c. skipReason tz orders g d r (cust_id c) = None) customers)
          \<and> length results + length skipped = length customers"
    by (intro exI [of _ results] exI [of _ "skipRecords tz orders g d r customers"] conjI res refl len)
qed


theorem processAllCustomers_spec_witness:
  "processAllCustomers utc exampleCustomers exampleOrders exampleMatrix ''Z'' 90 (100 * msPerDay)
     = Inl (Error (''Goal category '' @ [CHR 0x22] @ ''Z'' @ [CHR 0x22]
                     @ '' not found. Available categories: A, B''))
   \<and> (\<exists>results.
         processAllCustomers utc exampleCustomers exampleOrders exampleMatrix ''B'' 90 (100 * msPerDay)
           = Inr (results,
                  [\<lparr> sk_customerId = ''c1'', reason = ''Not active in window'' \<rparr>,
                   \<lparr> sk_customerId = ''c2'', reason = ''Already purchased goal category'' \<rparr>,
                   \<lparr> sk_customerId = ''c4'', reason = ''No orders'' \<rparr>])
         \<and> map car_customerId results = [''c3''])"
proof -
  have z: "''Z'' \<notin> set (ca_categories exampleMatrix)" by (simp add: exampleMatrix_def)
  have b: "''B'' \<in> set (ca_categories exampleMatrix)
             \<and> square (length (ca_categories exampleMatrix)) (ca_matrix exampleMatrix)"
    using example_matrix_square by (simp add: exampleMatrix_def)
  have "processAllCustomers utc exampleCustomers exampleOrders exampleMatrix ''Z'' 90 (100 * msPerDay)
          = Inl (Error (goalNotFound ''Z'' (ca_categories exampleMatrix)))"
    by (rule processAllCustomers_spec [of "''Z''" exampleMatrix utc exampleCustomers exampleOrders
          90 "100 * msPerDay", THEN conjunct1, THEN mp, OF z, THEN conjunct1])
  then have first: "processAllCustomers utc exampleCustomers exampleOrders exampleMatrix ''Z'' 90
          (100 * msPerDay)
     = Inl (Error (''Goal category '' @ [CHR 0x22] @ ''Z'' @ [CHR 0x22]
                     @ '' not found. Available categories: A, B''))"
    by (simp add: goalNotFound_def exampleMatrix_def)
  obtain results skipped where r:
      "processAllCustomers utc exampleCustomers exampleOrders exampleMatrix ''B'' 90 (100 * msPerDay)
         = Inr (results, skipped)"
      "skipped = skipRecords utc exampleOrders ''B'' 90 (100 * msPerDay) exampleCustomers"
      "map car_customerId results
         = map cust_id (filter (\<lambda>c. skipReason utc exampleOrders ''B'' 90 (100 * msPerDay) (cust_id c)
                                      = None) exampleCustomers)"
    using processAllCustomers_spec [of "''B''" exampleMatrix utc exampleCustomers exampleOrders
          90 "100 * msPerDay", THEN conjunct2, THEN mp, OF b]
    by (elim exE conjE) (erule that)
  have second: "processAllCustomers utc exampleCustomers exampleOrders exampleMatrix ''B'' 90
          (100 * msPerDay)
           = Inr (results,
                  [\<lparr> sk_customerId = ''c1'', reason = ''Not active in window'' \<rparr>,
                   \<lparr> sk_customerId = ''c2'', reason = ''Already purchased goal category'' \<rparr>,
                   \<lparr> sk_customerId = ''c4'', reason = ''No orders'' \<rparr>])"
    using r(1,2) by (simp only: example_skipRecords)
  have third: "map car_customerId results = [''c3'']"
    using r(3) by (simp only: example_scored)
  show ?thesis by (intro conjI exI [of _ results] first second third)
qed
text \<open>
  Claim C10. In a run with a valid goal category the skip records are exactly one for each
  customer that is not scored. A customer who has purchased the goal category and whose
  last order is outside the activity window is recorded with
  \<open>Already purchased goal category\<close> and not with \<open>Not active in window\<close>: that reason
  is only ever recorded for a customer whose history does not contain the goal category.
\<close>

theorem skip_reason_precedence:
  assumes "g \<in> set (ca_categories M)"
    and "square (length (ca_categories M)) (ca_matrix M)"
  shows "\<exists>results skipped.
            processAllCustomers tz customers orders M g d r = Inr (results, skipped)
          \<and> skipped = List.map_filter
                (\<lambda>c. map_option (\<lambda>why. \<lparr> sk_customerId = cust_id c, reason = why \<rparr>)
                       (skipReason tz orders g d r (cust_id c))) customers
          \<and> (\<forall>c \<in> set customers. \<forall>h.
                buildCustomerPurchaseHistory (cust_id c) orders = Some h
                \<and> \<not> isCustomerEligible tz h g d r \<longrightarrow>
                (\<exists>!why. \<lparr> sk_customerId = cust_id c, reason = why \<rparr> \<in> set skipped))
          \<and> (\<forall>c \<in> set customers. \<forall>h.
                buildCustomerPurchaseHistory (cust_id c) orders = Some h
                \<and> has (cph_categories h) g \<and> \<not> activeInWindow tz (lastOrderDate h) d r \<longrightarrow>
                \<lparr> sk_customerId = cust_id c, reason = ''Already purchased goal category'' \<rparr>
                  \<in> set skipped
                \<and> \<lparr> sk_customerId = cust_id c, reason = ''Not active in window'' \<rparr>
                  \<notin> set skipped)
          \<and> (\<forall>i. \<lparr> sk_customerId = i, reason = ''Not active in window'' \<rparr> \<in> set skipped \<longrightarrow>
                (\<exists>h. buildCustomerPurchaseHistory i orders = Some h
                     \<and> \<not> has (cph_categories h) g))"
proof -
  let ?sk = "skipRecords tz orders g d r customers"
  obtain results where res:
      "processAllCustomers tz customers orders M g d r = Inr (results, ?sk)"
    using processAllCustomers_valid [OF assms, of tz customers orders d r] by blast
  have one: "\<exists>!why. \<lparr> sk_customerId = cust_id c, reason = why \<rparr> \<in> set ?sk"
    if c: "c \<in> set customers"
      and h: "buildCustomerPurchaseHistory (cust_id c) orders = Some h \<and> \<not> isCustomerEligible tz h g d r"
    for c h
  proof -
    have "skipReason tz orders g d r (cust_id c) \<noteq> None"
      using h by (auto simp add: skipReason_None_iff)
    then obtain why where why: "skipReason tz orders g d r (cust_id c) = Some why" by auto
    show ?thesis
    proof (rule ex1I [of _ why])
      show "\<lparr> sk_customerId = cust_id c, reason = why \<rparr> \<in> set ?sk"
        using c why by (auto simp add: skipRecords_member)
      show "w = why" if "\<lparr> sk_customerId = cust_id c, reason = w \<rparr> \<in> set ?sk" for w
        using that why by (auto simp add: skipRecords_member)
    qed
  qed
  have prec: "\<lparr> sk_customerId = cust_id c, reason = ''Already purchased goal category'' \<rparr> \<in> set ?sk
                \<and> \<lparr> sk_customerId = cust_id c, reason = ''Not active in window'' \<rparr> \<notin> set ?sk"
    if c: "c \<in> set customers"
      and h: "buildCustomerPurchaseHistory (cust_id c) orders = Some h
                \<and> has (cph_categories h) g \<and> \<not> activeInWindow tz (lastOrderDate h) d r"
    for c h
  proof -
    have "skipReason tz orders g d r (cust_id c) = Some ''Already purchased goal category''"
      using h by (simp add: skipReason_def)
    then show ?thesis using c by (auto simp add: skipRecords_member)
  qed
  have window: "\<exists>h. buildCustomerPurchaseHistory i orders = Some h \<and> \<not> has (cph_categories h) g"
    if "\<lparr> sk_customerId = i, reason = ''Not active in window'' \<rparr> \<in> set ?sk" for i
  proof -
    have "skipReason tz orders g d r i = Some ''Not active in window''"
      using that by (auto simp add: skipRecords_member)
    then show ?thesis
      by (auto simp add: skipReason_def split: option.splits if_splits)
  qed
  have eq: "?sk = List.map_filter
                (\<lambda>c. map_option (\<lambda>why. \<lparr> sk_customerId = cust_id c, reason = why \<rparr>)
                       (skipReason tz orders g d r (cust_id c))) customers"
    by (simp only: skipRecords_def)
  have c1: "\<forall>c \<in> set customers. \<forall>h.
                buildCustomerPurchaseHistory (cust_id c) orders = Some h
                \<and> \<not> isCustomerEligible tz h g d r \<longrightarrow>
                (\<exists>!why. \<lparr> sk_customerId = cust_id c, reason = why \<rparr> \<in> set ?sk)"
    using one by blast
  have c2: "\<forall>c \<in> set customers. \<forall>h.
                buildCustomerPurchaseHistory (cust_id c) orders = Some h
                \<and> has (cph_categories h) g \<and> \<not> activeInWindow tz (lastOrderDate h) d r \<longrightarrow>
                \<lparr> sk_customerId = cust_id c, reason = ''Already purchased goal category'' \<rparr>
                  \<in> set ?sk
                \<and> \<lparr> sk_customerId = cust_id c, reason = ''Not active in window'' \<rparr>
                  \<notin> set ?sk"
    using prec by blast
  have c3: "\<forall>i. \<lparr> sk_customerId = i, reason = ''Not active in window'' \<rparr> \<in> set ?sk \<longrightarrow>
                (\<exists>h. buildCustomerPurchaseHistory i orders = Some h
                     \<and> \<not> has (cph_categories h) g)"
    using window by blast
  show ?thesis
    by (intro exI [of _ results] exI [of _ ?sk] conjI res eq c1 c2 c3)
qed

theorem skip_reason_precedence_witness:
  "\<exists>results skipped.
      processAllCustomers utc exampleCustomers exampleOrders exampleMatrix ''B'' 90 (100 * msPerDay)
        = Inr (results, skipped)
    \<and> \<lparr> sk_customerId = ''c2'', reason = ''Already purchased goal category'' \<rparr> \<in> set skipped
    \<and> \<lparr> sk_customerId = ''c2'', reason = ''Not active in window'' \<rparr> \<notin> set skipped
    \<and> length skipped = 3"
proof -
  have g: "''B'' \<in> set (ca_categories exampleMatrix)" by (simp add: exampleMatrix_def)
  obtain results skipped where r:
      "processAllCustomers utc exampleCustomers exampleOrders exampleMatrix ''B'' 90 (100 * msPerDay)
         = Inr (results, skipped)"
    and sk: "skipped = List.map_filter
                (\<lambda>c. map_option (\<lambda>why. \<lparr> sk_customerId = cust_id c, reason = why \<rparr>)
                       (skipReason utc exampleOrders ''B'' 90 (100 * msPerDay) (cust_id c)))
                exampleCustomers"
    and prec: "\<forall>c \<in> set exampleCustomers. \<forall>h.
                buildCustomerPurchaseHistory (cust_id c) exampleOrders = Some h
                \<and> has (cph_categories h) ''B'' \<and> \<not> activeInWindow utc (lastOrderDate h) 90 (100 * msPerDay) \<longrightarrow>
                \<lparr> sk_customerId = cust_id c, reason = ''Already purchased goal category'' \<rparr>
                  \<in> set skipped
                \<and> \<lparr> sk_customerId = cust_id c, reason = ''Not active in window'' \<rparr>
                  \<notin> set skipped"
    using skip_reason_precedence [OF g example_matrix_square, of utc exampleCustomers exampleOrders
        90 "100 * msPerDay"]
    by (elim exE conjE) (erule that)
  let ?c = "\<lparr> cust_id = ''c2'', cust_name = ''Bob'', email = ''b@x'', cust_createdAt = 0 \<rparr>"
  let ?h = "\<lparr> cph_customerId = ''c2'',
              cph_categories = [(''B'', \<lparr> cpi_categoryId = ''B'', frequency = 1,
                                          lastPurchaseDate = 0, isLastOrder = True \<rparr>)],
              lastOrderDate = 0, cph_totalOrders = 1 \<rparr>"
  have c: "?c \<in> set exampleCustomers" by (simp add: exampleCustomers_def)
  have h: "buildCustomerPurchaseHistory (cust_id ?c) exampleOrders = Some ?h
             \<and> has (cph_categories ?h) ''B'' \<and> \<not> activeInWindow utc (lastOrderDate ?h) 90 (100 * msPerDay)"
    using example_history
    by (simp add: has_def msPerDay_def activeInWindow_def daysBefore_def UTC_def LocalTime_def
        utc_def maxTime_def)
  have "\<lparr> sk_customerId = cust_id ?c, reason = ''Already purchased goal category'' \<rparr>
                  \<in> set skipped
                \<and> \<lparr> sk_customerId = cust_id ?c, reason = ''Not active in window'' \<rparr>
                  \<notin> set skipped"
    by (rule prec [THEN bspec, OF c, THEN spec, THEN mp, OF h])
  then have a: "\<lparr> sk_customerId = ''c2'', reason = ''Already purchased goal category'' \<rparr> \<in> set skipped"
    and b: "\<lparr> sk_customerId = ''c2'', reason = ''Not active in window'' \<rparr> \<notin> set skipped"
    by simp_all
  have "skipped = skipRecords utc exampleOrders ''B'' 90 (100 * msPerDay) exampleCustomers"
    using sk by (simp only: skipRecords_def)
  then have l: "length skipped = 3" by (simp only: example_skipRecords) simp
  show ?thesis by (intro exI [of _ results] exI [of _ skipped] conjI r a b l)
qed

end
